theory Spec2Isabelle
  imports Main
begin

section \<open>Strings, exceptions and the Python library functions the program calls\<close>

text \<open>
  A Python \<open>str\<close> is modelled as a \<open>string\<close> (a list of characters, each a code point
  below 256), a \<open>bytes\<close> value as a list of numbers.  An exception is a value of the type
  \<open>exn\<close>; a function that can raise returns \<open>exn + 'a\<close> with \<open>Inl\<close> for the raised
  exception.  The classes follow Python's hierarchy: only \<open>HTTPError\<close> is caught by
  \<open>except HTTPError\<close>, every constructor is caught by \<open>except Exception\<close>.
\<close>

datatype exn =
    PipelineSpecError string
  | HTTPError nat
  | URLError string
  | OSError string
  | ValueError string
  | AttributeError string

fun is_HTTPError :: "exn \<Rightarrow> bool" where
  "is_HTTPError (HTTPError code) = True"
| "is_HTTPError e = False"

type_synonym bytes = "nat list"

text \<open>\<open>s.startswith(p)\<close> and \<open>s.endswith(p)\<close>.\<close>

definition startswith :: "string \<Rightarrow> string \<Rightarrow> bool" where
  "startswith s p = (take (length p) s = p)"

definition endswith :: "string \<Rightarrow> string \<Rightarrow> bool" where
  "endswith s p = (length p \<le> length s \<and> drop (length s - length p) s = p)"

text \<open>
  \<open>str.isspace\<close> on one character, for the code points below 256: tab, line feed,
  vertical tab, form feed, carriage return, the four separators 0x1C..0x1F, the space,
  NEL (0x85) and the no-break space (0xA0).  \<open>s.strip()\<close> removes such characters at
  both ends.
\<close>

definition isspace :: "char \<Rightarrow> bool" where
  "isspace c = (c \<in> set [CHR 0x09, CHR 0x0A, CHR 0x0B, CHR 0x0C, CHR 0x0D,
      CHR 0x1C, CHR 0x1D, CHR 0x1E, CHR 0x1F, CHR 0x20, CHR 0x85, CHR 0xA0])"

definition strip :: "string \<Rightarrow> string" where
  "strip s = rev (dropWhile isspace (rev (dropWhile isspace s)))"

text \<open>
  \<open>s.split(sep)\<close> for a separator of one character: the pieces between the separators,
  empty pieces included, so that a string without the separator gives one piece.
\<close>

fun split_from :: "char \<Rightarrow> string \<Rightarrow> string \<Rightarrow> string list" where
  "split_from sep cur [] = [cur]"
| "split_from sep cur (c # cs) =
     (if c = sep then cur # split_from sep [] cs else split_from sep (cur @ [c]) cs)"

definition split :: "string \<Rightarrow> char \<Rightarrow> string list" where
  "split s sep = split_from sep [] s"

text \<open>
  \<open>s.replace(old, new)\<close>: every occurrence of \<open>old\<close>, found from left to right without
  overlap, becomes \<open>new\<close>.  For the empty \<open>old\<close> Python puts \<open>new\<close> before every
  character and at the end.
\<close>

fun replace_nonempty :: "string \<Rightarrow> string \<Rightarrow> string \<Rightarrow> string" where
  "replace_nonempty [] old new = []"
| "replace_nonempty (c # cs) old new =
     (if old \<noteq> [] \<and> startswith (c # cs) old
      then new @ replace_nonempty (drop (length old - 1) cs) old new
      else c # replace_nonempty cs old new)"

definition str_replace :: "string \<Rightarrow> string \<Rightarrow> string \<Rightarrow> string" where
  "str_replace s old new =
     (if old = [] then new @ concat (map (\<lambda>c. c # new) s) else replace_nonempty s old new)"

text \<open>
  Iterating over a text file yields its lines, each with its line feed; a last line
  without a line feed is yielded as it is, and an empty file yields nothing.  The
  argument is the content of the file as the text layer delivers it: decoded, every
  line ending translated to a line feed.
\<close>

fun lines_from :: "string \<Rightarrow> string \<Rightarrow> string list" where
  "lines_from cur [] = (if cur = [] then [] else [cur])"
| "lines_from cur (c # cs) =
     (if c = CHR 0x0A then (cur @ [c]) # lines_from [] cs else lines_from (cur @ [c]) cs)"

definition file_lines :: "string \<Rightarrow> string list" where
  "file_lines content = lines_from [] content"

section \<open>PipelineSpec\<close>

text \<open>
  The files the parser can read are a map from file name to content; \<open>open\<close> of a name
  outside the map raises \<open>OSError\<close>.
\<close>

type_synonym textfiles = "string \<rightharpoonup> string"

record pipelinespec =
  filename :: string
  data :: "string list"

text \<open>\<open>PipelineSpec.verify\<close>: the loop returns at the first line with the marker.\<close>

fun verify_lines :: "string list \<Rightarrow> bool" where
  "verify_lines [] = False"
| "verify_lines (line # rest) =
     (if startswith line ''@EXPLICIT'' then True else verify_lines rest)"

definition verify :: "textfiles \<Rightarrow> string \<Rightarrow> exn + bool" where
  "verify fs name =
     (case fs name of
        None \<Rightarrow> Inl (OSError name)
      | Some content \<Rightarrow> Inr (verify_lines (file_lines content)))"

text \<open>\<open>PipelineSpec._read\<close>: the loop over the lines, with the list it appends to.\<close>

fun read_lines :: "string list \<Rightarrow> string list \<Rightarrow> string list" where
  "read_lines [] acc = acc"
| "read_lines (raw # rest) acc =
     (let line = strip raw in
      if line = [] \<or> startswith line ''#'' \<or> startswith line ''@''
      then read_lines rest acc
      else read_lines rest (acc @ [line]))"

definition PipelineSpec_read :: "textfiles \<Rightarrow> pipelinespec \<Rightarrow> exn + pipelinespec" where
  "PipelineSpec_read fs self =
     (case verify fs (filename self) of
        Inl e \<Rightarrow> Inl e
      | Inr ok \<Rightarrow>
          if \<not> ok then Inl (PipelineSpecError (''Invalid spec file: '' @ filename self))
          else (case fs (filename self) of
                  None \<Rightarrow> Inl (OSError (filename self))
                | Some content \<Rightarrow> Inr (self\<lparr>data := read_lines (file_lines content) []\<rparr>)))"

text \<open>\<open>PipelineSpec.__init__\<close>, the \<open>parse\<close> of the specification.\<close>

definition PipelineSpec_init :: "textfiles \<Rightarrow> string \<Rightarrow> exn + pipelinespec" where
  "PipelineSpec_init fs name = PipelineSpec_read fs \<lparr>filename = name, data = []\<rparr>"

text \<open>
  \<open>PipelineSpec.replace\<close>.  The inner loop compares the parts of one record with
  \<open>old\<close>; at the first equal part it stores the replaced record at \<open>idx\<close> and breaks.
  The outer loop enumerates the list it updates; an update keeps the length and
  touches the current index only.
\<close>

fun replace_parts :: "string list \<Rightarrow> nat \<Rightarrow> string \<Rightarrow> string list \<Rightarrow> string \<Rightarrow> string \<Rightarrow> string list" where
  "replace_parts ds idx record [] old new = ds"
| "replace_parts ds idx record (part # parts) old new =
     (if part = old then ds[idx := str_replace record old new]
      else replace_parts ds idx record parts old new)"

lemma length_replace_parts: "length (replace_parts ds idx record parts old new) = length ds"
  by (induction parts) auto

function replace_from :: "string list \<Rightarrow> nat \<Rightarrow> string \<Rightarrow> string \<Rightarrow> string list" where
  "replace_from ds idx old new =
     (if idx < length ds
      then (let record = ds ! idx; parts = split record CHR ''/'' in
            replace_from (replace_parts ds idx record parts old new) (Suc idx) old new)
      else ds)"
  by pat_completeness auto
termination
  by (relation "measure (\<lambda>(ds, idx, old, new). length ds - idx)")
     (auto simp: length_replace_parts)

declare replace_from.simps [simp del]

definition replace :: "pipelinespec \<Rightarrow> string \<Rightarrow> string \<Rightarrow> pipelinespec" where
  "replace self old new = self\<lparr>data := replace_from (data self) 0 old new\<rparr>"

text \<open>
  The replacement as the specification words it: only the first occurrence of \<open>old\<close> in
  the string becomes \<open>new\<close>.  It is here to be compared with \<open>str_replace\<close>.
\<close>

fun spec_replace_first :: "string \<Rightarrow> string \<Rightarrow> string \<Rightarrow> string" where
  "spec_replace_first [] old new = (if old = [] then new else [])"
| "spec_replace_first (c # cs) old new =
     (if startswith (c # cs) old then new @ drop (length old) (c # cs)
      else c # spec_replace_first cs old new)"

section \<open>Paths: the functions of \<open>os.path\<close> on POSIX\<close>

text \<open>\<open>os.path.join(a, b)\<close>: an absolute \<open>b\<close> discards \<open>a\<close>.\<close>

definition join :: "string \<Rightarrow> string \<Rightarrow> string" where
  "join a b =
     (if startswith b ''/'' then b
      else if a = [] \<or> endswith a ''/'' then a @ b
      else a @ ''/'' @ b)"

text \<open>\<open>os.path.basename(p)\<close>: what follows the last \<open>/\<close>, all of \<open>p\<close> when it has none.\<close>

definition basename :: "string \<Rightarrow> string" where
  "basename p = rev (takeWhile (\<lambda>c. c \<noteq> CHR ''/'') (rev p))"

text \<open>\<open>os.path.dirname(p)\<close>: what precedes the last \<open>/\<close>, without trailing slashes unless
  it consists of slashes only.\<close>

definition dirname :: "string \<Rightarrow> string" where
  "dirname p =
     (let head = rev (dropWhile (\<lambda>c. c \<noteq> CHR ''/'') (rev p)) in
      if head \<noteq> [] \<and> head \<noteq> replicate (length head) CHR ''/''
      then rev (dropWhile (\<lambda>c. c = CHR ''/'') (rev head))
      else head)"

text \<open>\<open>'/'.join(comps)\<close>.\<close>

fun sep_join :: "string list \<Rightarrow> string" where
  "sep_join [] = []"
| "sep_join [c] = c"
| "sep_join (c # cs) = c @ ''/'' @ sep_join cs"

text \<open>
  \<open>os.path.normpath(path)\<close>: the loop over the components drops empty ones and \<open>.\<close>,
  and lets \<open>..\<close> remove the component before it; \<open>initial\<close> counts the leading slashes
  that are kept (two exactly are kept, three or more are one).
\<close>

fun normpath_comps :: "nat \<Rightarrow> string list \<Rightarrow> string list \<Rightarrow> string list" where
  "normpath_comps initial [] new_comps = new_comps"
| "normpath_comps initial (component # comps) new_comps =
     (if component = [] \<or> component = ''.'' then normpath_comps initial comps new_comps
      else if component \<noteq> ''..'' \<or> (initial = 0 \<and> new_comps = [])
                \<or> (new_comps \<noteq> [] \<and> last new_comps = ''..'')
      then normpath_comps initial comps (new_comps @ [component])
      else if new_comps \<noteq> [] then normpath_comps initial comps (butlast new_comps)
      else normpath_comps initial comps new_comps)"

definition normpath :: "string \<Rightarrow> string" where
  "normpath path =
     (if path = [] then ''.''
      else
        (let initial =
               (if startswith path ''/''
                then (if startswith path ''//'' \<and> \<not> startswith path ''///'' then 2 else 1)
                else (0::nat));
             comps = normpath_comps initial (split path CHR ''/'') [];
             joined = replicate initial CHR ''/'' @ sep_join comps
         in if joined = [] then ''.'' else joined))"

text \<open>The slice \<open>s[b:e]\<close> for indices that are not negative.\<close>

definition slice :: "string \<Rightarrow> nat \<Rightarrow> nat \<Rightarrow> string" where
  "slice s b e = take (e - b) (drop b s)"

section \<open>The file system, standard output and the network\<close>

text \<open>
  The world a run acts on: the directories, the regular files with their content, the
  free space of the disk, the lines printed, and the sizes requested of remote
  resources, one for every call of \<open>data.read\<close>, in the order of the calls.  A path
  names the entry its normal form names (there are no symbolic links, the current
  directory does not change, and a path with exactly two leading slashes is kept apart
  from the one with a single slash, as \<open>normpath\<close> keeps it); the root and the current
  directory always exist.
\<close>

record world =
  dirs :: "string set"
  files :: "string \<rightharpoonup> bytes"
  free :: nat
  stdout :: "string list"
  requested :: "nat list"

definition dir_at :: "world \<Rightarrow> string \<Rightarrow> bool" where
  "dir_at w k = (k \<in> dirs w \<or> k = ''.'' \<or> k = ''/'' \<or> k = ''//'')"

definition file_at :: "world \<Rightarrow> string \<Rightarrow> bool" where
  "file_at w k = (files w k \<noteq> None)"

text \<open>\<open>os.path.exists(p)\<close>.\<close>

definition path_exists :: "world \<Rightarrow> string \<Rightarrow> bool" where
  "path_exists w p = (let k = normpath p in dir_at w k \<or> file_at w k)"

text \<open>
  The directories above a normal path: its prefixes that end before a \<open>/\<close>.  The
  directory a normal path lies in is the current one when the path has no \<open>/\<close>.
\<close>

definition ancestors :: "string \<Rightarrow> string list" where
  "ancestors k = map (\<lambda>i. take i k) (filter (\<lambda>i. k ! i = CHR ''/'') [1..<length k])"

definition parent :: "string \<Rightarrow> string" where
  "parent k = (let d = dirname k in if d = [] then ''.'' else d)"

text \<open>
  \<open>os.makedirs(p)\<close>: raises when \<open>p\<close> exists or when a regular file stands where a
  directory is needed; otherwise \<open>p\<close> and the missing directories above it are created.
\<close>

definition makedirs :: "world \<Rightarrow> string \<Rightarrow> exn + world" where
  "makedirs w p =
     (let k = normpath p in
      if dir_at w k \<or> file_at w k then Inl (OSError ''File exists'')
      else if list_ex (file_at w) (ancestors k) then Inl (OSError ''Not a directory'')
      else Inr (w\<lparr>dirs := dirs w \<union> set (ancestors k) \<union> {k}\<rparr>))"

text \<open>
  \<open>open(p, 'w+b')\<close>: raises for a directory, for a path that has a regular file where
  its directory should be, and for a path whose directory is missing; otherwise the
  file exists afterwards and is empty.
\<close>

definition open_wb :: "world \<Rightarrow> string \<Rightarrow> exn + world" where
  "open_wb w p =
     (let k = normpath p in
      if dir_at w k then Inl (OSError ''Is a directory'')
      else if file_at w (parent k) then Inl (OSError ''Not a directory'')
      else if \<not> dir_at w (parent k) then Inl (OSError ''No such file or directory'')
      else Inr (w\<lparr>files := (files w)(k \<mapsto> [])\<rparr>))"

text \<open>
  \<open>fp.write(chunk)\<close> for the file opened at \<open>p\<close>: raises when the disk is full.  (A
  buffered file may take a chunk that does not fit and raise when the \<open>with\<close> block
  closes it, which is inside the same \<open>try\<close> statement; the model raises at the write.)
\<close>

definition write_chunk :: "world \<Rightarrow> string \<Rightarrow> bytes \<Rightarrow> exn + world" where
  "write_chunk w p chunk =
     (let k = normpath p in
      case files w k of
        None \<Rightarrow> Inl (OSError ''Bad file descriptor'')
      | Some old \<Rightarrow>
          if free w < length chunk then Inl (OSError ''No space left on device'')
          else Inr (w\<lparr>files := (files w)(k \<mapsto> old @ chunk), free := free w - length chunk\<rparr>))"

text \<open>
  A remote resource that was opened: the bytes still to come, finitely many, and the
  exception the connection raises after them, if it breaks.  \<open>data.read(n)\<close> returns
  the next \<open>n\<close> bytes, fewer at the end of the body, none at the end of an intact
  stream.
\<close>

datatype stream = Stream (body: bytes) (broken: "exn option")

definition stream_read :: "stream \<Rightarrow> nat \<Rightarrow> (exn + bytes) \<times> stream" where
  "stream_read dat n =
     (if body dat = []
      then (case broken dat of None \<Rightarrow> (Inr [], dat) | Some e \<Rightarrow> (Inl e, dat))
      else (Inr (take n (body dat)), Stream (drop n (body dat)) (broken dat)))"

text \<open>
  The call \<open>data.read(n)\<close> as the program makes it: the size asked for is appended to
  the sizes requested, and the stream answers.
\<close>

definition data_read :: "world \<Rightarrow> stream \<Rightarrow> nat \<Rightarrow> (exn + bytes) \<times> stream \<times> world" where
  "data_read w dat n =
     (case stream_read dat n of
        (r, dat1) \<Rightarrow> (r, dat1, w\<lparr>requested := requested w @ [n]\<rparr>))"

text \<open>\<open>urlopen(url)\<close>: an exception or the opened resource.\<close>

type_synonym network = "string \<Rightarrow> exn + stream"

section \<open>Backup\<close>

text \<open>
  The statistics and the object.  \<open>__init__\<close> sets every attribute but \<open>verbose\<close>, which
  is \<open>None\<close> until the caller assigns it.
\<close>

record stats =
  read :: nat
  written :: nat
  success :: nat
  skipped :: nat
  fatal :: "(string \<times> exn) list"
  fail :: "(string \<times> exn) list"

record backup =
  block_size :: nat
  destination :: string
  data :: "string list"
  stats :: stats
  verbose :: "bool option"

definition Backup_init :: "string list \<Rightarrow> string \<Rightarrow> backup" where
  "Backup_init ds dest =
     \<lparr>block_size = 0xFFFF,
      destination = normpath dest,
      data = ds,
      stats = \<lparr>read = 0, written = 0, success = 0, skipped = 0, fatal = [], fail = []\<rparr>,
      verbose = None\<rparr>"

text \<open>\<open>Backup._determine_local_path\<close>: the loop collects the indices of the slashes.\<close>

fun markers_from :: "string \<Rightarrow> nat \<Rightarrow> nat list \<Rightarrow> nat list" where
  "markers_from [] i markers = markers"
| "markers_from (ch # rest) i markers =
     (if ch = CHR ''/'' then markers_from rest (Suc i) (markers @ [i])
      else markers_from rest (Suc i) markers)"

definition determine_local_path :: "backup \<Rightarrow> string \<Rightarrow> exn + string \<times> string" where
  "determine_local_path self record =
     (let filename = basename record;
          markers = markers_from record 0 [];
          markers_len = length markers
      in if markers_len < 3 then Inl (ValueError ''Invalid URL part length'')
         else
           (let begin = markers ! (markers_len - 3) + 1;
                end = markers ! (markers_len - 1);
                local_path = normpath (join (destination self) (slice record begin end))
            in Inr (local_path, filename)))"

text \<open>
  The transfer loop of \<open>Backup._download\<close>.  One pass of the body writes the chunk,
  counts it as written, reads the next chunk (a call of \<open>data.read\<close>, recorded in the
  world) and counts it as read; it ends in the next state of the loop or in an
  exception, which leaves the state as it was when it was raised.
\<close>

datatype step = Next backup world stream bytes | Raised exn backup world

definition loop_body :: "nat \<Rightarrow> backup \<Rightarrow> world \<Rightarrow> stream \<Rightarrow> bytes \<Rightarrow> string \<Rightarrow> step" where
  "loop_body bs self w dat chunk fullpath =
     (case write_chunk w fullpath chunk of
        Inl e \<Rightarrow> Raised e self w
      | Inr w1 \<Rightarrow>
          (let self1 = self\<lparr>stats := (stats self)\<lparr>written := written (stats self) + length chunk\<rparr>\<rparr>
           in case data_read w1 dat bs of
                (Inl e, dat1, w2) \<Rightarrow> Raised e self1 w2
              | (Inr chunk1, dat1, w2) \<Rightarrow>
                  Next (self1\<lparr>stats := (stats self1)\<lparr>read := read (stats self1) + length chunk1\<rparr>\<rparr>)
                    w2 dat1 chunk1))"

lemma stream_read_length:
  "stream_read dat n = (Inr chunk, dat1) \<Longrightarrow> length chunk + length (body dat1) = length (body dat)"
  by (auto simp: stream_read_def split: if_splits option.splits)

lemma loop_body_Next_length:
  "loop_body bs self w dat chunk fullpath = Next self1 w1 dat1 chunk1 \<Longrightarrow>
     length chunk1 + length (body dat1) = length (body dat)"
  by (auto simp: loop_body_def data_read_def Let_def split: sum.splits prod.splits
      dest: stream_read_length)

function copy_loop ::
  "nat \<Rightarrow> backup \<Rightarrow> world \<Rightarrow> stream \<Rightarrow> bytes \<Rightarrow> string \<Rightarrow> exn option \<times> backup \<times> world" where
  "copy_loop bs self w dat chunk fullpath =
     (if chunk = [] then (None, self, w)
      else (case loop_body bs self w dat chunk fullpath of
              Raised e self1 w1 \<Rightarrow> (Some e, self1, w1)
            | Next self1 w1 dat1 chunk1 \<Rightarrow> copy_loop bs self1 w1 dat1 chunk1 fullpath))"
  by pat_completeness auto
termination
  by (relation "measure (\<lambda>(bs, self, w, dat, chunk, fullpath). length chunk + length (body dat))")
     (auto dest: loop_body_Next_length)

declare copy_loop.simps [simp del]

text \<open>
  The body of the \<open>try\<close> statement: open the resource, open the file, read
  \<open>self.verbose\<close>, read the first chunk and loop.  The result is the exception that
  left the body, if one did, with the state at that moment.
\<close>

definition transfer ::
  "network \<Rightarrow> nat \<Rightarrow> backup \<Rightarrow> world \<Rightarrow> string \<Rightarrow> string \<Rightarrow> exn option \<times> backup \<times> world" where
  "transfer net bs self w url fullpath =
     (case net url of
        Inl e \<Rightarrow> (Some e, self, w)
      | Inr dat \<Rightarrow>
          (case open_wb w fullpath of
             Inl e \<Rightarrow> (Some e, self, w)
           | Inr w1 \<Rightarrow>
               (case verbose self of
                  None \<Rightarrow> (Some (AttributeError ''verbose''), self, w1)
                | Some v \<Rightarrow>
                    (let w2 = (if v then w1\<lparr>stdout := stdout w1 @ [''Writing: '' @ fullpath]\<rparr> else w1)
                     in case data_read w2 dat bs of
                          (Inl e, dat1, w3) \<Rightarrow> (Some e, self, w3)
                        | (Inr chunk, dat1, w3) \<Rightarrow>
                            copy_loop bs
                              (self\<lparr>stats := (stats self)\<lparr>read := read (stats self) + length chunk\<rparr>\<rparr>)
                              w3 dat1 chunk fullpath))))"

text \<open>
  The \<open>try\<close> statement with its handlers and the statement after it.  The handler of
  \<open>HTTPError\<close> returns; the handler of \<open>Exception\<close> does not, so that the count of
  successes follows it.
\<close>

definition attempt ::
  "network \<Rightarrow> nat \<Rightarrow> backup \<Rightarrow> world \<Rightarrow> string \<Rightarrow> string \<Rightarrow> exn option \<times> backup \<times> world" where
  "attempt net bs self w url fullpath =
     (case transfer net bs self w url fullpath of
        (Some reason, self1, w1) \<Rightarrow>
          if is_HTTPError reason
          then (None, self1\<lparr>stats := (stats self1)\<lparr>fail := fail (stats self1) @ [(url, reason)]\<rparr>\<rparr>, w1)
          else
            (let self2 = self1\<lparr>stats := (stats self1)\<lparr>fatal := fatal (stats self1) @ [(url, reason)]\<rparr>\<rparr>
             in (None, self2\<lparr>stats := (stats self2)\<lparr>success := success (stats self2) + 1\<rparr>\<rparr>, w1))
      | (None, self1, w1) \<Rightarrow>
          (None, self1\<lparr>stats := (stats self1)\<lparr>success := success (stats self1) + 1\<rparr>\<rparr>, w1))"

text \<open>
  \<open>Backup._download\<close>.  The first component of the result is the exception that
  leaves the method, \<open>None\<close> when it returns.
\<close>

definition download ::
  "network \<Rightarrow> backup \<Rightarrow> world \<Rightarrow> string \<Rightarrow> exn option \<times> backup \<times> world" where
  "download net self w url =
     (case determine_local_path self url of
        Inl e \<Rightarrow> (Some e, self, w)
      | Inr found \<Rightarrow>
          (let path = fst found;
               filename = snd found;
               dirpath = join (destination self) path;
               fullpath = join dirpath filename;
               bs = block_size self
           in if \<not> path_exists w dirpath
              then (case makedirs w dirpath of
                      Inl e \<Rightarrow> (Some e, self, w)
                    | Inr w1 \<Rightarrow> attempt net bs self w1 url fullpath)
              else if path_exists w fullpath
              then (None, self\<lparr>stats := (stats self)\<lparr>skipped := skipped (stats self) + 1\<rparr>\<rparr>, w)
              else attempt net bs self w url fullpath))"

text \<open>\<open>Backup.run\<close>: an exception of one download ends the loop.\<close>

fun run_from :: "network \<Rightarrow> backup \<Rightarrow> world \<Rightarrow> string list \<Rightarrow> exn option \<times> backup \<times> world" where
  "run_from net self w [] = (None, self, w)"
| "run_from net self w (url # urls) =
     (case download net self w url of
        (Some e, self1, w1) \<Rightarrow> (Some e, self1, w1)
      | (None, self1, w1) \<Rightarrow> run_from net self1 w1 urls)"

definition run :: "network \<Rightarrow> backup \<Rightarrow> world \<Rightarrow> exn option \<times> backup \<times> world" where
  "run net self w = run_from net self w (backup.data self)"


text \<open>
  An ordinary component of a path: not empty, neither \<open>.\<close> nor \<open>..\<close>, without a slash.  A
  plain path is a sequence of ordinary components, with or without the root before it.
\<close>

definition ordinary :: "string \<Rightarrow> bool" where
  "ordinary c = (c \<noteq> [] \<and> c \<noteq> ''.'' \<and> c \<noteq> ''..'' \<and> CHR ''/'' \<notin> set c)"

section \<open>Example inputs\<close>

text \<open>
  A file with a comment, the marker, a locator with blanks around it, an empty line,
  another directive and the same locator again; and a file whose marker does not start
  its line.
\<close>

definition example_spec :: string where
  "example_spec =
     ''# list\<newline>@EXPLICIT\<newline>  http://h/a/b/p \<newline>\<newline>@other\<newline>http://h/a/b/p\<newline>http://h/a/b/q''"

text \<open>
  A world without entries, and a network where one locator is served, one is answered
  with an HTTP error and every other connection is refused.
\<close>

definition empty_world :: world where
  "empty_world = \<lparr>dirs = {}, files = Map.empty, free = 1000000, stdout = [], requested = []\<rparr>"

definition example_net :: network where
  "example_net url =
     (if url = ''http://h/ch/linux/p.tar'' then Inr (Stream [1, 2, 3] None)
      else if url = ''http://h/ch/linux/gone.tar'' then Inl (HTTPError 404)
      else Inl (URLError ''Connection refused''))"

section \<open>Properties of the parser\<close>

lemma verify_lines_iff: "verify_lines ls = (\<exists>l \<in> set ls. startswith l ''@EXPLICIT'')"
  by (induction ls) auto

lemma read_lines_filter:
  "read_lines ls acc =
     acc @ filter (\<lambda>l. l \<noteq> [] \<and> \<not> startswith l ''#'' \<and> \<not> startswith l ''@'') (map strip ls)"
  by (induction ls arbitrary: acc) (auto simp: Let_def)

text \<open>
  Claim C7.  For a spec file that can be read, constructing the \<open>PipelineSpec\<close> raises
  \<open>PipelineSpecError\<close> exactly when no line of the file starts with \<open>@EXPLICIT\<close>;
  otherwise the data are the stripped lines in their order, without the empty ones and
  those that start with \<open>#\<close> or \<open>@\<close>, and a line that occurs twice is kept twice.
\<close>

theorem parse_spec:
  assumes "fs name = Some content"
  shows "PipelineSpec_init fs name =
     (if (\<exists>l \<in> set (file_lines content). startswith l ''@EXPLICIT'')
      then Inr \<lparr>filename = name,
                data = filter (\<lambda>l. l \<noteq> [] \<and> \<not> startswith l ''#'' \<and> \<not> startswith l ''@'')
                         (map strip (file_lines content))\<rparr>
      else Inl (PipelineSpecError (''Invalid spec file: '' @ name)))"
  using assms
  by (simp add: PipelineSpec_init_def PipelineSpec_read_def verify_def verify_lines_iff
      read_lines_filter)

lemma example_spec_lines:
  "file_lines example_spec =
     [''# list\<newline>'', ''@EXPLICIT\<newline>'', ''  http://h/a/b/p \<newline>'', ''\<newline>'', ''@other\<newline>'',
      ''http://h/a/b/p\<newline>'', ''http://h/a/b/q'']"
  by code_simp

lemma example_spec_stripped:
  "map strip (file_lines example_spec) =
     [''# list'', ''@EXPLICIT'', ''http://h/a/b/p'', [], ''@other'', ''http://h/a/b/p'',
      ''http://h/a/b/q'']"
  by code_simp

theorem parse_spec_witness:
  "PipelineSpec_init [''s.txt'' \<mapsto> example_spec] ''s.txt'' =
     Inr \<lparr>filename = ''s.txt'',
          data = [''http://h/a/b/p'', ''http://h/a/b/p'', ''http://h/a/b/q'']\<rparr>
   \<and> PipelineSpec_init [''s.txt'' \<mapsto> ''http://h/a/b/p\<newline> @EXPLICIT''] ''s.txt'' =
     Inl (PipelineSpecError ''Invalid spec file: s.txt'')"
proof -
  have a: "[''s.txt'' \<mapsto> example_spec] ''s.txt'' = Some example_spec"
    by simp
  have b: "[''s.txt'' \<mapsto> ''http://h/a/b/p\<newline> @EXPLICIT''] ''s.txt'' =
      Some ''http://h/a/b/p\<newline> @EXPLICIT''"
    by simp
  have c: "file_lines ''http://h/a/b/p\<newline> @EXPLICIT'' = [''http://h/a/b/p\<newline>'', '' @EXPLICIT'']"
    by code_simp
  show ?thesis
    using parse_spec [of "[''s.txt'' \<mapsto> example_spec]" "''s.txt''" example_spec, OF a]
      parse_spec [of "[''s.txt'' \<mapsto> ''http://h/a/b/p\<newline> @EXPLICIT'']" "''s.txt''"
        "''http://h/a/b/p\<newline> @EXPLICIT''", OF b]
    unfolding example_spec_stripped
    by (simp add: example_spec_lines c startswith_def)
qed

section \<open>Properties of the replacement\<close>

lemma replace_parts_eq:
  "replace_parts ds idx record parts old new =
     (if old \<in> set parts then ds[idx := str_replace record old new] else ds)"
  by (induction parts) auto

lemma replace_from_eq:
  "idx \<le> length ds \<Longrightarrow>
   replace_from ds idx old new =
     take idx ds @
     map (\<lambda>r. if old \<in> set (split r CHR ''/'') then str_replace r old new else r) (drop idx ds)"
proof (induction ds idx old new rule: replace_from.induct)
  case (1 ds idx old new)
  let ?f = "\<lambda>r. if old \<in> set (split r CHR ''/'') then str_replace r old new else r"
  show ?case
  proof (cases "idx < length ds")
    case False
    with "1.prems" show ?thesis
      by (simp add: replace_from.simps)
  next
    case True
    let ?ds' = "replace_parts ds idx (ds ! idx) (split (ds ! idx) CHR ''/'') old new"
    have upd: "?ds' = ds[idx := ?f (ds ! idx)]"
      by (simp add: replace_parts_eq)
    have "replace_from ds idx old new = replace_from ?ds' (Suc idx) old new"
      using True by (subst replace_from.simps) (simp add: Let_def)
    also have "\<dots> = take (Suc idx) ?ds' @ map ?f (drop (Suc idx) ?ds')"
      using "1.IH" [OF True refl refl] True by (simp add: length_replace_parts)
    also have "\<dots> = take idx ds @ map ?f (drop idx ds)"
      using True unfolding upd
      by (simp add: take_Suc_conv_app_nth Cons_nth_drop_Suc [symmetric])
    finally show ?thesis .
  qed
qed

text \<open>
  After an occurrence of a non-empty \<open>old\<close> at the start, \<open>str_replace\<close> goes on in what
  follows it, where \<open>spec_replace_first\<close> stops.
\<close>

lemma str_replace_at_start:
  "old \<noteq> [] \<Longrightarrow> str_replace (old @ rest) old new = new @ str_replace rest old new"
  by (cases old) (auto simp: str_replace_def startswith_def)

lemma spec_replace_first_at_start:
  "old \<noteq> [] \<Longrightarrow> spec_replace_first (old @ rest) old new = new @ rest"
  by (cases old) (auto simp: startswith_def)

text \<open>
  Claim C2, as amended.  \<open>replace\<close> changes the locators that have \<open>old\<close> as a full
  segment and no others, and keeps the file name and the order.  In a locator it
  changes, every occurrence of \<open>old\<close> in the string becomes \<open>new\<close>, as \<open>str.replace\<close>
  does, not the first occurrence only.
\<close>

theorem replace_all_occurrences:
  "pipelinespec.data (replace self old new) =
     map (\<lambda>r. if old \<in> set (split r CHR ''/'') then str_replace r old new else r)
       (pipelinespec.data self)
   \<and> filename (replace self old new) = filename self"
  by (simp add: replace_def replace_from_eq)

lemma example_replace_parts:
  "split ''http://h/linux/linux/p'' CHR ''/'' = [''http:'', [], ''h'', ''linux'', ''linux'', ''p'']"
  "split ''http://h/linux-64/p'' CHR ''/'' = [''http:'', [], ''h'', ''linux-64'', ''p'']"
  "str_replace ''http://h/linux/linux/p'' ''linux'' ''osx'' = ''http://h/osx/osx/p''"
  "spec_replace_first ''http://h/linux/linux/p'' ''linux'' ''osx'' = ''http://h/osx/linux/p''"
  by code_simp+

theorem replace_all_occurrences_witness:
  "pipelinespec.data
     (replace \<lparr>filename = ''s.txt'', data = [''http://h/linux/linux/p'', ''http://h/linux-64/p'']\<rparr>
        ''linux'' ''osx'') =
   [''http://h/osx/osx/p'', ''http://h/linux-64/p'']"
  using replace_all_occurrences
    [of "\<lparr>filename = ''s.txt'', data = [''http://h/linux/linux/p'', ''http://h/linux-64/p'']\<rparr>"
      "''linux''" "''osx''"]
  by (simp add: example_replace_parts)

text \<open>
  The claim as stated fails where \<open>old\<close> is a segment twice: both become \<open>new\<close>, while
  the replacement of the first occurrence only would keep the second.
\<close>

theorem replace_first_only_counterexample:
  "pipelinespec.data
     (replace \<lparr>filename = ''s.txt'', data = [''http://h/linux/linux/p'']\<rparr> ''linux'' ''osx'') =
   [''http://h/osx/osx/p'']
   \<and> pipelinespec.data
     (replace \<lparr>filename = ''s.txt'', data = [''http://h/linux/linux/p'']\<rparr> ''linux'' ''osx'') \<noteq>
   [spec_replace_first ''http://h/linux/linux/p'' ''linux'' ''osx'']"
  by (simp add: replace_def replace_from_eq example_replace_parts)

section \<open>Properties of the path resolution\<close>

lemma markers_from_acc: "markers_from s i acc = acc @ markers_from s i []"
proof (induction s arbitrary: i acc)
  case Nil
  show ?case by simp
next
  case (Cons ch rest)
  show ?case
    using Cons.IH [of "Suc i" "acc @ [i]"] Cons.IH [of "Suc i" "[i]"] Cons.IH [of "Suc i" acc]
    by simp
qed

lemma markers_from_append:
  "markers_from (a @ b) i acc = markers_from b (i + length a) (markers_from a i acc)"
  by (induction a arbitrary: i acc) auto

lemma markers_from_no_slash: "CHR ''/'' \<notin> set s \<Longrightarrow> markers_from s i acc = acc"
  by (induction s arbitrary: i) auto

lemma length_markers_from:
  "length (markers_from s i acc) = length acc + length (filter (\<lambda>c. c = CHR ''/'') s)"
  by (induction s arbitrary: i acc) auto

lemma basename_after_last_slash:
  "CHR ''/'' \<notin> set name \<Longrightarrow> basename (front @ CHR ''/'' # name) = name"
  by (simp add: basename_def takeWhile_append1 [where x = "CHR ''/''"] takeWhile_eq_all_conv
      takeWhile_append)

lemma split_at_last_slash:
  assumes "0 < length (filter (\<lambda>c. c = CHR ''/'') s)"
  shows "\<exists>front name. s = front @ CHR ''/'' # name \<and> CHR ''/'' \<notin> set name
           \<and> length (filter (\<lambda>c. c = CHR ''/'') front) + 1 = length (filter (\<lambda>c. c = CHR ''/'') s)"
proof -
  from assms have "filter (\<lambda>c. c = CHR ''/'') s \<noteq> []"
    by simp
  then have "CHR ''/'' \<in> set s"
    by (simp add: filter_empty_conv)
  from split_list_last [OF this]
  obtain front name where s: "s = front @ CHR ''/'' # name" and n: "CHR ''/'' \<notin> set name"
    by blast
  from n have "filter (\<lambda>c. c = CHR ''/'') name = []"
    by (induction name) auto
  then have "length (filter (\<lambda>c. c = CHR ''/'') front) + 1 = length (filter (\<lambda>c. c = CHR ''/'') s)"
    by (simp add: s)
  with s n show ?thesis
    by (intro exI conjI)
qed

lemma determine_local_path_parts:
  assumes s1: "CHR ''/'' \<notin> set seg1" and s2: "CHR ''/'' \<notin> set seg2"
    and nm: "CHR ''/'' \<notin> set name"
  shows "determine_local_path self (front @ ''/'' @ seg1 @ ''/'' @ seg2 @ ''/'' @ name) =
     Inr (normpath (join (destination self) (seg1 @ ''/'' @ seg2)), name)"
proof -
  let ?locator = "front @ ''/'' @ seg1 @ ''/'' @ seg2 @ ''/'' @ name"
  let ?p1 = "length front"
  let ?p2 = "length front + 1 + length seg1"
  let ?p3 = "length front + 1 + length seg1 + 1 + length seg2"
  let ?m = "markers_from front 0 []"
  have split3: "?locator = front @ (CHR ''/'' # seg1) @ (CHR ''/'' # seg2) @ (CHR ''/'' # name)"
    by simp
  have "markers_from ?locator 0 [] = ?m @ [?p1, ?p2, ?p3]"
    unfolding split3 markers_from_append
    using s1 s2 nm
    by (simp add: markers_from_no_slash markers_from_acc [of _ _ "_ @ _"])
  then have markers: "markers_from ?locator 0 [] = ?m @ [?p1, ?p2, ?p3]" .
  have len: "length (?m @ [?p1, ?p2, ?p3]) = length ?m + 3"
    by simp
  have b: "(?m @ [?p1, ?p2, ?p3]) ! (length ?m + 3 - 3) = ?p1"
    by (simp add: nth_append)
  have e: "(?m @ [?p1, ?p2, ?p3]) ! (length ?m + 3 - 1) = ?p3"
    by (simp add: nth_append)
  have sl: "slice ?locator (?p1 + 1) ?p3 = seg1 @ ''/'' @ seg2"
    by (simp add: slice_def)
  have bn: "basename ?locator = name"
    using basename_after_last_slash [OF nm, of "front @ ''/'' @ seg1 @ ''/'' @ seg2"]
    by simp
  show ?thesis
    unfolding determine_local_path_def markers Let_def len b e sl bn
    by simp
qed

text \<open>A plain path is normal, and so is its join with two ordinary segments.\<close>

lemma split_from_no_sep: "sep \<notin> set s \<Longrightarrow> split_from sep cur s = [cur @ s]"
  by (induction s arbitrary: cur) auto

lemma split_from_at_sep:
  "sep \<notin> set a \<Longrightarrow> split_from sep cur (a @ sep # b) = (cur @ a) # split_from sep [] b"
  by (induction a arbitrary: cur) auto

lemma split_sep_join:
  "cs \<noteq> [] \<Longrightarrow> \<forall>c \<in> set cs. CHR ''/'' \<notin> set c \<Longrightarrow>
   split_from CHR ''/'' cur (sep_join cs) = (cur @ hd cs) # tl cs"
proof (induction cs arbitrary: cur rule: sep_join.induct)
  case 1
  then show ?case by simp
next
  case (2 c)
  then show ?case by (simp add: split_from_no_sep)
next
  case (3 c d ds)
  have "split_from CHR ''/'' cur (sep_join (c # d # ds)) =
      (cur @ c) # split_from CHR ''/'' [] (sep_join (d # ds))"
    using "3.prems" split_from_at_sep [of "CHR ''/''" c cur "sep_join (d # ds)"] by simp
  with "3.IH" [of "[]"] "3.prems" show ?case
    by simp
qed

lemma normpath_comps_ordinary:
  "\<forall>c \<in> set cs. ordinary c \<Longrightarrow> normpath_comps initial cs acc = acc @ cs"
  by (induction cs arbitrary: acc) (auto simp: ordinary_def)

lemma sep_join_append:
  "cs \<noteq> [] \<Longrightarrow> ds \<noteq> [] \<Longrightarrow> sep_join (cs @ ds) = sep_join cs @ ''/'' @ sep_join ds"
  by (induction cs rule: sep_join.induct) (auto simp: neq_Nil_conv)

lemma ordinary_ends:
  assumes "ordinary c"
  shows "c \<noteq> []" "hd c \<noteq> CHR ''/''" "last c \<noteq> CHR ''/''"
proof -
  from assms show nonempty: "c \<noteq> []"
    by (simp add: ordinary_def)
  from assms have "CHR ''/'' \<notin> set c"
    by (simp add: ordinary_def)
  with hd_in_set [OF nonempty] last_in_set [OF nonempty]
  show "hd c \<noteq> CHR ''/''" "last c \<noteq> CHR ''/''"
    by metis+
qed

lemma sep_join_ordinary:
  assumes "cs \<noteq> []" "\<forall>c \<in> set cs. ordinary c"
  shows "sep_join cs \<noteq> []" "hd (sep_join cs) \<noteq> CHR ''/''" "last (sep_join cs) \<noteq> CHR ''/''"
  using assms
  by (induction cs rule: sep_join.induct) (auto simp: ordinary_ends hd_append)

lemma normpath_plain:
  assumes "cs \<noteq> []" "\<forall>c \<in> set cs. ordinary c" "root = [] \<or> root = ''/''"
  shows "normpath (root @ sep_join cs) = root @ sep_join cs"
proof -
  note nice = sep_join_ordinary [OF assms(1,2)]
  from nice(1) obtain x xs where j: "sep_join cs = x # xs"
    by (cases "sep_join cs") auto
  with nice(2) have x: "x \<noteq> CHR ''/''"
    by simp
  have slashfree: "\<forall>c \<in> set cs. CHR ''/'' \<notin> set c"
    using assms(2) by (simp add: ordinary_def)
  from assms(3) show ?thesis
  proof
    assume r: "root = []"
    have "split (sep_join cs) CHR ''/'' = cs"
      using split_sep_join [OF assms(1) slashfree, of "[]"] assms(1) by (simp add: split_def)
    then show ?thesis
      using r j x nice(1) assms(2)
      by (simp add: normpath_def startswith_def normpath_comps_ordinary Let_def)
  next
    assume r: "root = ''/''"
    have "split (''/'' @ sep_join cs) CHR ''/'' = [] # cs"
      using split_sep_join [OF assms(1) slashfree, of "[]"] assms(1) by (simp add: split_def)
    then show ?thesis
      using r j x nice(1) assms(2)
      by (simp add: normpath_def startswith_def normpath_comps_ordinary Let_def)
  qed
qed

lemma endswith_slash: "endswith s ''/'' = (s \<noteq> [] \<and> last s = CHR ''/'')"
  by (cases s rule: rev_cases) (auto simp: endswith_def)

lemma directory_plain:
  assumes dest: "dest = root @ sep_join ds" "dest \<noteq> []" "root = [] \<or> root = ''/''"
    and plain: "\<forall>c \<in> set ds. ordinary c" "ordinary seg1" "ordinary seg2"
  shows "normpath dest = dest"
    and "normpath (join dest (seg1 @ ''/'' @ seg2)) = join dest (seg1 @ ''/'' @ seg2)"
proof -
  have sub: "\<not> startswith (seg1 @ ''/'' @ seg2) ''/''"
    using ordinary_ends [OF plain(2)] by (cases seg1) (simp_all add: startswith_def)
  have two: "\<forall>c \<in> set [seg1, seg2]. ordinary c" "\<forall>c \<in> set (ds @ [seg1, seg2]). ordinary c"
    using plain by simp_all
  show "normpath dest = dest"
  proof (cases "ds = []")
    case True
    with dest have "dest = ''/''"
      by auto
    moreover have "normpath ''/'' = ''/''"
      by code_simp
    ultimately show ?thesis
      by simp
  next
    case False
    from normpath_plain [OF False plain(1) dest(3)] dest(1) show ?thesis
      by simp
  qed
  show "normpath (join dest (seg1 @ ''/'' @ seg2)) = join dest (seg1 @ ''/'' @ seg2)"
  proof (cases "ds = []")
    case True
    with dest have "dest = ''/''"
      by auto
    with sub have "join dest (seg1 @ ''/'' @ seg2) = ''/'' @ sep_join [seg1, seg2]"
      by (simp add: join_def endswith_slash)
    with normpath_plain [OF _ two(1), of "''/''"] show ?thesis
      by simp
  next
    case False
    note nice = sep_join_ordinary [OF False plain(1)]
    have "\<not> endswith dest ''/''"
      using nice dest(1) by (simp add: endswith_slash)
    with sub dest(2) have "join dest (seg1 @ ''/'' @ seg2) = dest @ ''/'' @ seg1 @ ''/'' @ seg2"
      by (simp add: join_def)
    also have "\<dots> = root @ sep_join (ds @ [seg1, seg2])"
      using False by (simp add: dest(1) sep_join_append)
    finally have "join dest (seg1 @ ''/'' @ seg2) = root @ sep_join (ds @ [seg1, seg2])" .
    with normpath_plain [OF _ two(2) dest(3)] show ?thesis
      by simp
  qed
qed

text \<open>
  The resolution of a locator with ordinary segments.  A locator with at least three
  slashes ends in \<open>/seg1/seg2/name\<close>, where no slash occurs in \<open>seg1\<close>, \<open>seg2\<close> and
  \<open>name\<close>: \<open>name\<close> is what follows the last slash, \<open>seg1/seg2\<close> what stands after the
  third slash from the end and before the last one.  The resolution returns \<open>name\<close> as
  the file name and, as the directory, the normal form of what \<open>os.path.join\<close> makes of
  the destination and \<open>seg1/seg2\<close>.  For \<open>http://x/y/z/w/pkg.tar\<close> and the destination
  \<open>/root\<close> these are \<open>/root/z/w\<close> and \<open>pkg.tar\<close>.  When the destination root is a
  plain path and the two segments are ordinary (not empty, not \<open>.\<close> or \<open>..\<close>), the
  directory is the destination root with the two segments under it.  A segment that is
  not ordinary is another matter: see the locator with an empty segment below.
\<close>

lemma determine_local_path_resolves:
  "(3 \<le> length (filter (\<lambda>c. c = CHR ''/'') record) \<longrightarrow>
     (\<exists>front seg1 seg2 name.
        record = front @ ''/'' @ seg1 @ ''/'' @ seg2 @ ''/'' @ name
        \<and> CHR ''/'' \<notin> set seg1 \<and> CHR ''/'' \<notin> set seg2 \<and> CHR ''/'' \<notin> set name
        \<and> determine_local_path self record =
            Inr (normpath (join (destination self) (seg1 @ ''/'' @ seg2)), name)))
   \<and> determine_local_path (Backup_init ds ''/root'') ''http://x/y/z/w/pkg.tar'' =
       Inr (''/root/z/w'', ''pkg.tar'')
   \<and> ((root = [] \<or> root = ''/'') \<and> root @ sep_join comps \<noteq> []
        \<and> (\<forall>c \<in> set comps. ordinary c) \<and> ordinary first \<and> ordinary second
        \<and> CHR ''/'' \<notin> set file \<longrightarrow>
      determine_local_path (Backup_init ds (root @ sep_join comps))
          (before @ ''/'' @ first @ ''/'' @ second @ ''/'' @ file) =
        Inr (join (root @ sep_join comps) (first @ ''/'' @ second), file))"
proof (intro conjI impI)
  assume three: "3 \<le> length (filter (\<lambda>c. c = CHR ''/'') record)"
  then have "0 < length (filter (\<lambda>c. c = CHR ''/'') record)"
    by linarith
  from split_at_last_slash [OF this]
  obtain r1 name where r1: "record = r1 @ CHR ''/'' # name" and nm: "CHR ''/'' \<notin> set name"
    and c1: "length (filter (\<lambda>c. c = CHR ''/'') r1) + 1 = length (filter (\<lambda>c. c = CHR ''/'') record)"
    by blast
  from three c1 have "0 < length (filter (\<lambda>c. c = CHR ''/'') r1)"
    by linarith
  from split_at_last_slash [OF this]
  obtain r2 seg2 where r2: "r1 = r2 @ CHR ''/'' # seg2" and s2: "CHR ''/'' \<notin> set seg2"
    and c2: "length (filter (\<lambda>c. c = CHR ''/'') r2) + 1 = length (filter (\<lambda>c. c = CHR ''/'') r1)"
    by blast
  from three c1 c2 have "0 < length (filter (\<lambda>c. c = CHR ''/'') r2)"
    by linarith
  from split_at_last_slash [OF this]
  obtain front seg1 where r3: "r2 = front @ CHR ''/'' # seg1" and s1: "CHR ''/'' \<notin> set seg1"
    by blast
  have shape: "record = front @ ''/'' @ seg1 @ ''/'' @ seg2 @ ''/'' @ name"
    by (simp add: r1 r2 r3)
  have res: "determine_local_path self record =
      Inr (normpath (join (destination self) (seg1 @ ''/'' @ seg2)), name)"
    unfolding shape by (rule determine_local_path_parts [OF s1 s2 nm])
  show "\<exists>front seg1 seg2 name.
        record = front @ ''/'' @ seg1 @ ''/'' @ seg2 @ ''/'' @ name
        \<and> CHR ''/'' \<notin> set seg1 \<and> CHR ''/'' \<notin> set seg2 \<and> CHR ''/'' \<notin> set name
        \<and> determine_local_path self record =
            Inr (normpath (join (destination self) (seg1 @ ''/'' @ seg2)), name)"
    by (rule exI [of _ front], rule exI [of _ seg1], rule exI [of _ seg2], rule exI [of _ name])
      (intro conjI shape s1 s2 nm res)
next
  have shape: "''http://x/y/z/w/pkg.tar'' = ''http://x/y'' @ ''/'' @ ''z'' @ ''/'' @ ''w'' @ ''/'' @ ''pkg.tar''"
    by simp
  have dest: "destination (Backup_init ds ''/root'') = ''/root''"
  proof -
    have "normpath ''/root'' = ''/root''" by code_simp
    then show ?thesis by (simp add: Backup_init_def)
  qed
  have dir: "normpath (join ''/root'' ''z/w'') = ''/root/z/w''"
    by code_simp
  show "determine_local_path (Backup_init ds ''/root'') ''http://x/y/z/w/pkg.tar'' =
       Inr (''/root/z/w'', ''pkg.tar'')"
    unfolding shape
    by (subst determine_local_path_parts) (simp_all add: dest dir)
next
  assume plain: "(root = [] \<or> root = ''/'') \<and> root @ sep_join comps \<noteq> []
        \<and> (\<forall>c \<in> set comps. ordinary c) \<and> ordinary first \<and> ordinary second
        \<and> CHR ''/'' \<notin> set file"
  then have slashfree: "CHR ''/'' \<notin> set first" "CHR ''/'' \<notin> set second" "CHR ''/'' \<notin> set file"
    by (simp_all add: ordinary_def)
  from plain have given: "root @ sep_join comps \<noteq> []" "root = [] \<or> root = ''/''"
    "\<forall>c \<in> set comps. ordinary c" "ordinary first" "ordinary second"
    by simp_all
  note normal = directory_plain [OF refl given]
  show "determine_local_path (Backup_init ds (root @ sep_join comps))
          (before @ ''/'' @ first @ ''/'' @ second @ ''/'' @ file) =
        Inr (join (root @ sep_join comps) (first @ ''/'' @ second), file)"
  proof -
    have "destination (Backup_init ds (root @ sep_join comps)) = normpath (root @ sep_join comps)"
      by (simp add: Backup_init_def)
    then show ?thesis
      by (simp only: determine_local_path_parts [OF slashfree] normal)
  qed
qed

lemma determine_local_path_resolves_example:
  "(\<exists>front seg1 seg2 name.
      ''http://h/ch/linux/p.tar'' = front @ ''/'' @ seg1 @ ''/'' @ seg2 @ ''/'' @ name
      \<and> CHR ''/'' \<notin> set seg1 \<and> CHR ''/'' \<notin> set seg2 \<and> CHR ''/'' \<notin> set name
      \<and> determine_local_path (Backup_init [] ''/srv'') ''http://h/ch/linux/p.tar'' =
          Inr (normpath (join (destination (Backup_init [] ''/srv'')) (seg1 @ ''/'' @ seg2)), name))
   \<and> determine_local_path (Backup_init [] ''/srv'') ''http://h/ch/linux/p.tar'' =
       Inr (''/srv/ch/linux'', ''p.tar'')"
proof -
  have "3 \<le> length (filter (\<lambda>c. c = CHR ''/'') ''http://h/ch/linux/p.tar'')"
    by simp
  moreover have "(''/'' = [] \<or> ''/'' = ''/'') \<and> ''/'' @ sep_join [''srv''] \<noteq> []
      \<and> (\<forall>c \<in> set [''srv'']. ordinary c) \<and> ordinary ''ch'' \<and> ordinary ''linux''
      \<and> CHR ''/'' \<notin> set ''p.tar''"
    by (simp add: ordinary_def)
  moreover have "join (''/'' @ sep_join [''srv'']) (''ch'' @ ''/'' @ ''linux'') = ''/srv/ch/linux''"
    by (simp add: join_def startswith_def endswith_def)
  moreover have "''http://h'' @ ''/'' @ ''ch'' @ ''/'' @ ''linux'' @ ''/'' @ ''p.tar'' =
      ''http://h/ch/linux/p.tar''" "''/'' @ sep_join [''srv''] = ''/srv''"
    by simp_all
  ultimately show ?thesis
    using determine_local_path_resolves [of "''http://h/ch/linux/p.tar''" "Backup_init [] ''/srv''"
        "[]" "''/''" "[''srv'']" "''ch''" "''linux''" "''p.tar''" "''http://h''"]
    by metis
qed

section \<open>Properties of the mirroring\<close>

lemma Backup_init_fields [simp]:
  "block_size (Backup_init ds dest) = 65535"
  "destination (Backup_init ds dest) = normpath dest"
  "backup.data (Backup_init ds dest) = ds"
  "verbose (Backup_init ds dest) = None"
  "stats (Backup_init ds dest) =
     \<lparr>read = 0, written = 0, success = 0, skipped = 0, fatal = [], fail = []\<rparr>"
  by (simp_all add: Backup_init_def)

lemma run_from_append:
  "run_from net self w (xs @ ys) =
     (case run_from net self w xs of
        (Some e, self1, w1) \<Rightarrow> (Some e, self1, w1)
      | (None, self1, w1) \<Rightarrow> run_from net self1 w1 ys)"
  by (induction xs arbitrary: self w) (auto split: prod.splits option.splits)

lemma determine_local_path_malformed:
  "length (filter (\<lambda>c. c = CHR ''/'') url) < 3 \<Longrightarrow>
   determine_local_path self url = Inl (ValueError ''Invalid URL part length'')"
  by (simp add: determine_local_path_def Let_def length_markers_from)

lemma download_malformed:
  "determine_local_path self url = Inl e \<Longrightarrow> download net self w url = (Some e, self, w)"
  by (simp add: download_def)

text \<open>
  Claim C6.  For a locator with fewer than three slashes the resolution raises the
  \<open>ValueError\<close>; \<open>_download\<close> lets it pass with the statistics and the world as they
  were, and a run that reaches such a locator ends there with that exception: the
  statistics are those of the locators before it, so nothing is appended to \<open>fail\<close> or
  \<open>fatal\<close> for it, and the locators after it are not visited.
\<close>

theorem malformed_locator_aborts:
  "length (filter (\<lambda>c. c = CHR ''/'') url) < 3 \<longrightarrow>
     determine_local_path self url = Inl (ValueError ''Invalid URL part length'')
     \<and> download net self w url = (Some (ValueError ''Invalid URL part length''), self, w)
     \<and> (backup.data self = before @ url # rest \<longrightarrow>
          run net self w =
            (case run_from net self w before of
               (Some e, self1, w1) \<Rightarrow> (Some e, self1, w1)
             | (None, self1, w1) \<Rightarrow> (Some (ValueError ''Invalid URL part length''), self1, w1)))"
proof (intro impI conjI)
  assume few: "length (filter (\<lambda>c. c = CHR ''/'') url) < 3"
  show bad: "determine_local_path self url = Inl (ValueError ''Invalid URL part length'')"
    by (rule determine_local_path_malformed [OF few])
  show "download net self w url = (Some (ValueError ''Invalid URL part length''), self, w)"
    by (rule download_malformed [OF bad])
  assume ds: "backup.data self = before @ url # rest"
  show "run net self w =
      (case run_from net self w before of
         (Some e, self1, w1) \<Rightarrow> (Some e, self1, w1)
       | (None, self1, w1) \<Rightarrow> (Some (ValueError ''Invalid URL part length''), self1, w1))"
  proof (cases "run_from net self w before")
    case (fields r self1 w1)
    have "determine_local_path self1 url = Inl (ValueError ''Invalid URL part length'')"
      by (rule determine_local_path_malformed [OF few])
    then have "download net self1 w1 url = (Some (ValueError ''Invalid URL part length''), self1, w1)"
      by (rule download_malformed)
    with fields show ?thesis
      by (cases r) (simp_all add: run_def ds run_from_append)
  qed
qed

theorem malformed_locator_aborts_witness:
  "run example_net (Backup_init [''http://pkg.tar'', ''http://h/ch/linux/p.tar''] ''/root'')
     empty_world =
   (Some (ValueError ''Invalid URL part length''),
    Backup_init [''http://pkg.tar'', ''http://h/ch/linux/p.tar''] ''/root'', empty_world)"
  using malformed_locator_aborts
    [of "''http://pkg.tar''" "Backup_init [''http://pkg.tar'', ''http://h/ch/linux/p.tar''] ''/root''"
      example_net empty_world "[]" "[''http://h/ch/linux/p.tar'']"]
  by simp

subsection \<open>What the transfer changes in the object\<close>



lemma loop_body_Next:
  assumes "loop_body bs self w dat chunk fullpath = Next self1 w1 dat1 chunk1"
  shows "\<exists>w2. write_chunk w fullpath chunk = Inr w2
      \<and> w1 = w2\<lparr>requested := requested w2 @ [bs]\<rparr>"
    "stream_read dat bs = (Inr chunk1, dat1)"
    "self1 = self\<lparr>stats := (stats self)\<lparr>read := read (stats self) + length chunk1,
        written := written (stats self) + length chunk\<rparr>\<rparr>"
  using assms
  by (auto simp: loop_body_def data_read_def Let_def split: sum.splits prod.splits)

lemma loop_body_Raised:
  assumes "loop_body bs self w dat chunk fullpath = Raised e self1 w1"
  shows "(write_chunk w fullpath chunk = Inl e \<and> self1 = self \<and> w1 = w)
     \<or> ((\<exists>w2. write_chunk w fullpath chunk = Inr w2
          \<and> w1 = w2\<lparr>requested := requested w2 @ [bs]\<rparr>)
        \<and> fst (stream_read dat bs) = Inl e
        \<and> self1 = self\<lparr>stats := (stats self)\<lparr>written := written (stats self) + length chunk\<rparr>\<rparr>)"
  using assms
  by (auto simp: loop_body_def data_read_def Let_def split: sum.splits prod.splits)

lemma copy_loop_counts:
  "copy_loop bs self w dat chunk fullpath = (res, self1, w1) \<Longrightarrow>
     \<exists>r wr. self1 = self\<lparr>stats := (stats self)\<lparr>read := r, written := wr\<rparr>\<rparr>"
proof (induction bs self w dat chunk fullpath rule: copy_loop.induct)
  case (1 bs self w dat chunk fullpath)
  show ?case
  proof (cases "chunk = []")
    case True
    with "1.prems" have "self1 = self"
      by (simp add: copy_loop.simps)
    then have "self1 = self\<lparr>stats := (stats self)\<lparr>read := read (stats self),
        written := written (stats self)\<rparr>\<rparr>"
      by simp
    then show ?thesis by blast
  next
    case False
    show ?thesis
    proof (cases "loop_body bs self w dat chunk fullpath")
      case (Raised e self2 w2)
      with False "1.prems" have "self1 = self2"
        by (simp add: copy_loop.simps)
      with loop_body_Raised [OF Raised]
      have "self1 = self\<lparr>stats := (stats self)\<lparr>read := read (stats self),
            written := written (stats self)\<rparr>\<rparr>
          \<or> self1 = self\<lparr>stats := (stats self)\<lparr>read := read (stats self),
            written := written (stats self) + length chunk\<rparr>\<rparr>"
        by auto
      then show ?thesis by blast
    next
      case (Next self2 w2 dat2 chunk2)
      with False "1.prems" have "copy_loop bs self2 w2 dat2 chunk2 fullpath = (res, self1, w1)"
        by (simp add: copy_loop.simps)
      from "1.IH" [OF False Next this] obtain r wr
        where "self1 = self2\<lparr>stats := (stats self2)\<lparr>read := r, written := wr\<rparr>\<rparr>"
        by blast
      with loop_body_Next(3) [OF Next]
      have "self1 = self\<lparr>stats := (stats self)\<lparr>read := r, written := wr\<rparr>\<rparr>"
        by simp
      then show ?thesis by blast
    qed
  qed
qed

lemma transfer_counts:
  "transfer net bs self w url fullpath = (res, self1, w1) \<Longrightarrow>
     \<exists>r wr. self1 = self\<lparr>stats := (stats self)\<lparr>read := r, written := wr\<rparr>\<rparr>"
proof -
  assume t: "transfer net bs self w url fullpath = (res, self1, w1)"
  have same: "self = self\<lparr>stats := (stats self)\<lparr>read := read (stats self),
      written := written (stats self)\<rparr>\<rparr>"
    by simp
  show ?thesis
  proof (cases "self1 = self")
    case True
    with same show ?thesis by metis
  next
    case False
    with t obtain dat w2 chunk dat1 where
      "copy_loop bs (self\<lparr>stats := (stats self)\<lparr>read := read (stats self) + length chunk\<rparr>\<rparr>)
         w2 dat1 chunk fullpath = (res, self1, w1)"
      by (auto simp: transfer_def Let_def split: sum.splits option.splits prod.splits)
    from copy_loop_counts [OF this] obtain r wr where
      "self1 = self\<lparr>stats := (stats self)\<lparr>read := r, written := wr\<rparr>\<rparr>"
      by auto
    then show ?thesis by blast
  qed
qed

subsection \<open>Bytes written never exceed bytes read\<close>

lemma loop_body_le:
  assumes "written (stats self) + length chunk \<le> read (stats self)"
  shows "loop_body bs self w dat chunk fullpath = Next self1 w1 dat1 chunk1 \<Longrightarrow>
      written (stats self1) + length chunk1 \<le> read (stats self1)"
    and "loop_body bs self w dat chunk fullpath = Raised e self2 w2 \<Longrightarrow>
      written (stats self2) \<le> read (stats self2)"
proof -
  assume "loop_body bs self w dat chunk fullpath = Next self1 w1 dat1 chunk1"
  from loop_body_Next(3) [OF this] assms
  show "written (stats self1) + length chunk1 \<le> read (stats self1)"
    by simp
next
  assume "loop_body bs self w dat chunk fullpath = Raised e self2 w2"
  from loop_body_Raised [OF this] assms
  show "written (stats self2) \<le> read (stats self2)"
    by auto
qed

lemma loop_body_eq:
  assumes "written (stats self) + length chunk = read (stats self)"
    and "loop_body bs self w dat chunk fullpath = Next self1 w1 dat1 chunk1"
  shows "written (stats self1) + length chunk1 = read (stats self1)"
  using loop_body_Next(3) [OF assms(2)] assms(1) by simp

lemma copy_loop_le:
  "written (stats self) + length chunk \<le> read (stats self) \<Longrightarrow>
   copy_loop bs self w dat chunk fullpath = (res, self1, w1) \<Longrightarrow>
   written (stats self1) \<le> read (stats self1)"
proof (induction bs self w dat chunk fullpath rule: copy_loop.induct)
  case (1 bs self w dat chunk fullpath)
  show ?case
  proof (cases "chunk = []")
    case True
    with "1.prems" show ?thesis
      by (simp add: copy_loop.simps)
  next
    case False
    show ?thesis
    proof (cases "loop_body bs self w dat chunk fullpath")
      case (Raised e self2 w2)
      with False "1.prems"(2) have "self1 = self2"
        by (simp add: copy_loop.simps)
      with loop_body_le(2) [OF "1.prems"(1) Raised] show ?thesis
        by simp
    next
      case (Next self2 w2 dat2 chunk2)
      with False "1.prems"(2)
      have "copy_loop bs self2 w2 dat2 chunk2 fullpath = (res, self1, w1)"
        by (simp add: copy_loop.simps)
      with "1.IH" [OF False Next loop_body_le(1) [OF "1.prems"(1) Next]] show ?thesis
        by simp
    qed
  qed
qed

lemma copy_loop_eq:
  "written (stats self) + length chunk = read (stats self) \<Longrightarrow>
   copy_loop bs self w dat chunk fullpath = (None, self1, w1) \<Longrightarrow>
   written (stats self1) = read (stats self1)"
proof (induction bs self w dat chunk fullpath rule: copy_loop.induct)
  case (1 bs self w dat chunk fullpath)
  show ?case
  proof (cases "chunk = []")
    case True
    with "1.prems" show ?thesis
      by (simp add: copy_loop.simps)
  next
    case False
    show ?thesis
    proof (cases "loop_body bs self w dat chunk fullpath")
      case (Raised e self2 w2)
      with False "1.prems"(2) show ?thesis
        by (simp add: copy_loop.simps)
    next
      case (Next self2 w2 dat2 chunk2)
      with False "1.prems"(2)
      have "copy_loop bs self2 w2 dat2 chunk2 fullpath = (None, self1, w1)"
        by (simp add: copy_loop.simps)
      with "1.IH" [OF False Next loop_body_eq [OF "1.prems"(1) Next]] show ?thesis
        by simp
    qed
  qed
qed

lemma transfer_le:
  assumes "written (stats self) \<le> read (stats self)"
    and "transfer net bs self w url fullpath = (res, self1, w1)"
  shows "written (stats self1) \<le> read (stats self1)"
proof (cases "self1 = self")
  case True
  with assms(1) show ?thesis by simp
next
  case False
  with assms(2) obtain w2 chunk dat1 where loop:
    "copy_loop bs (self\<lparr>stats := (stats self)\<lparr>read := read (stats self) + length chunk\<rparr>\<rparr>)
       w2 dat1 chunk fullpath = (res, self1, w1)"
    by (auto simp: transfer_def Let_def split: sum.splits option.splits prod.splits)
  let ?self = "self\<lparr>stats := (stats self)\<lparr>read := read (stats self) + length chunk\<rparr>\<rparr>"
  from assms(1) have "written (stats ?self) + length chunk \<le> read (stats ?self)"
    by simp
  from copy_loop_le [OF this loop] show ?thesis .
qed

lemma transfer_eq:
  assumes "written (stats self) = read (stats self)"
    and "transfer net bs self w url fullpath = (None, self1, w1)"
  shows "written (stats self1) = read (stats self1)"
proof -
  from assms(2) obtain w2 chunk dat1 where loop:
    "copy_loop bs (self\<lparr>stats := (stats self)\<lparr>read := read (stats self) + length chunk\<rparr>\<rparr>)
       w2 dat1 chunk fullpath = (None, self1, w1)"
    by (auto simp: transfer_def Let_def split: sum.splits option.splits prod.splits)
  let ?self = "self\<lparr>stats := (stats self)\<lparr>read := read (stats self) + length chunk\<rparr>\<rparr>"
  from assms(1) have "written (stats ?self) + length chunk = read (stats ?self)"
    by simp
  from copy_loop_eq [OF this loop] show ?thesis .
qed

subsection \<open>The outcomes of one download\<close>

lemma attempt_cases [consumes 1, case_names completed http_error other_error]:
  assumes "attempt net bs self w url fullpath = (res, self1, w1)"
  obtains
    (completed) self2 where "transfer net bs self w url fullpath = (None, self2, w1)"
      "res = None" "self1 = self2\<lparr>stats := (stats self2)\<lparr>success := success (stats self2) + 1\<rparr>\<rparr>"
  | (http_error) reason self2 where "transfer net bs self w url fullpath = (Some reason, self2, w1)"
      "is_HTTPError reason" "res = None"
      "self1 = self2\<lparr>stats := (stats self2)\<lparr>fail := fail (stats self2) @ [(url, reason)]\<rparr>\<rparr>"
  | (other_error) reason self2 where "transfer net bs self w url fullpath = (Some reason, self2, w1)"
      "\<not> is_HTTPError reason" "res = None"
      "self1 = self2\<lparr>stats := (stats self2)\<lparr>fatal := fatal (stats self2) @ [(url, reason)],
         success := success (stats self2) + 1\<rparr>\<rparr>"
proof (cases "transfer net bs self w url fullpath")
  case (fields t self2 w2)
  show thesis
  proof (cases t)
    case None
    with fields assms show thesis
      by (intro completed [of self2]) (auto simp: attempt_def)
  next
    case (Some reason)
    show thesis
    proof (cases "is_HTTPError reason")
      case True
      with Some fields assms show thesis
        by (intro http_error [of reason self2]) (auto simp: attempt_def)
    next
      case False
      with Some fields assms show thesis
        by (intro other_error [of reason self2]) (auto simp: attempt_def Let_def)
    qed
  qed
qed

lemma download_cases [consumes 1, case_names malformed no_directory new_directory skip
    old_directory]:
  assumes "download net self w url = (res, self1, w1)"
  obtains
    (malformed) e where "determine_local_path self url = Inl e"
      "res = Some e" "self1 = self" "w1 = w"
  | (no_directory) path name e where "determine_local_path self url = Inr (path, name)"
      "\<not> path_exists w (join (destination self) path)"
      "makedirs w (join (destination self) path) = Inl e"
      "res = Some e" "self1 = self" "w1 = w"
  | (new_directory) path name wd where "determine_local_path self url = Inr (path, name)"
      "\<not> path_exists w (join (destination self) path)"
      "makedirs w (join (destination self) path) = Inr wd"
      "attempt net (block_size self) self wd url (join (join (destination self) path) name) =
         (res, self1, w1)"
  | (skip) path name where "determine_local_path self url = Inr (path, name)"
      "path_exists w (join (destination self) path)"
      "path_exists w (join (join (destination self) path) name)"
      "res = None" "self1 = self\<lparr>stats := (stats self)\<lparr>skipped := skipped (stats self) + 1\<rparr>\<rparr>"
      "w1 = w"
  | (old_directory) path name where "determine_local_path self url = Inr (path, name)"
      "path_exists w (join (destination self) path)"
      "\<not> path_exists w (join (join (destination self) path) name)"
      "attempt net (block_size self) self w url (join (join (destination self) path) name) =
         (res, self1, w1)"
proof (cases "determine_local_path self url")
  case (Inl e)
  with assms show thesis
    by (intro malformed [of e]) (auto simp: download_def)
next
  case (Inr found)
  obtain path name where found: "found = (path, name)"
    by (cases found)
  note resolved = Inr [unfolded found]
  show thesis
  proof (cases "path_exists w (join (destination self) path)")
    case False
    show thesis
    proof (cases "makedirs w (join (destination self) path)")
      case (Inl e)
      with False resolved assms show thesis
        by (intro no_directory [of path name e]) (auto simp: download_def Let_def)
    next
      case (Inr wd)
      with False resolved assms show thesis
        by (intro new_directory [of path name wd]) (auto simp: download_def Let_def)
    qed
  next
    case True
    show thesis
    proof (cases "path_exists w (join (join (destination self) path) name)")
      case present: True
      with True resolved assms show thesis
        by (intro skip [of path name]) (auto simp: download_def Let_def)
    next
      case False
      with True resolved assms show thesis
        by (intro old_directory [of path name]) (auto simp: download_def Let_def)
    qed
  qed
qed

subsection \<open>The byte counts over a download and a run\<close>

lemma attempt_le:
  assumes "written (stats self) \<le> read (stats self)"
    and "attempt net bs self w url fullpath = (res, self1, w1)"
  shows "written (stats self1) \<le> read (stats self1)"
  using assms(2)
  by (cases rule: attempt_cases) (use transfer_le [OF assms(1)] in force)+

lemma download_le:
  assumes "written (stats self) \<le> read (stats self)"
    and "download net self w url = (res, self1, w1)"
  shows "written (stats self1) \<le> read (stats self1)"
  using assms(2)
  by (cases rule: download_cases) (use assms(1) attempt_le [OF assms(1)] in auto)

lemma run_from_le:
  "written (stats self) \<le> read (stats self) \<Longrightarrow>
   run_from net self w urls = (res, self1, w1) \<Longrightarrow>
   written (stats self1) \<le> read (stats self1)"
proof (induction urls arbitrary: self w)
  case Nil
  then show ?case by simp
next
  case (Cons url urls)
  obtain r self2 w2 where d: "download net self w url = (r, self2, w2)"
    by (cases "download net self w url")
  from download_le [OF Cons.prems(1) d] have le: "written (stats self2) \<le> read (stats self2)" .
  show ?case
  proof (cases r)
    case None
    with d Cons.prems(2) have "run_from net self2 w2 urls = (res, self1, w1)"
      by simp
    from Cons.IH [OF le this] show ?thesis .
  next
    case (Some e)
    with d Cons.prems(2) le show ?thesis
      by simp
  qed
qed

lemma attempt_recorded:
  assumes "attempt net bs self w url fullpath = (res, self1, w1)"
  shows "length (fail (stats self)) \<le> length (fail (stats self1))"
    and "length (fatal (stats self)) \<le> length (fatal (stats self1))"
  using assms
  by (cases rule: attempt_cases; use transfer_counts in fastforce)+

lemma download_recorded:
  assumes "download net self w url = (res, self1, w1)"
  shows "length (fail (stats self)) \<le> length (fail (stats self1))"
    and "length (fatal (stats self)) \<le> length (fatal (stats self1))"
  using assms
  by (cases rule: download_cases; use attempt_recorded in auto)+

lemma run_from_recorded:
  "run_from net self w urls = (res, self1, w1) \<Longrightarrow>
     length (fail (stats self)) \<le> length (fail (stats self1))
     \<and> length (fatal (stats self)) \<le> length (fatal (stats self1))"
proof (induction urls arbitrary: self w)
  case Nil
  then show ?case by simp
next
  case (Cons url urls)
  obtain r self2 w2 where d: "download net self w url = (r, self2, w2)"
    by (cases "download net self w url")
  note step = download_recorded [OF d]
  show ?case
  proof (cases r)
    case None
    with d Cons.prems have "run_from net self2 w2 urls = (res, self1, w1)"
      by simp
    from Cons.IH [OF this] step show ?thesis
      by linarith
  next
    case (Some e)
    with d Cons.prems step show ?thesis
      by simp
  qed
qed

lemma attempt_eq:
  assumes "written (stats self) = read (stats self)"
    and "attempt net bs self w url fullpath = (res, self1, w1)"
    and "length (fail (stats self1)) = length (fail (stats self))"
    and "length (fatal (stats self1)) = length (fatal (stats self))"
  shows "written (stats self1) = read (stats self1)"
  using assms(2)
proof (cases rule: attempt_cases)
  case (completed self2)
  with transfer_eq [OF assms(1) completed(1)] show ?thesis
    by simp
next
  case (http_error reason self2)
  with transfer_counts [OF http_error(1)] assms(3) show ?thesis
    by auto
next
  case (other_error reason self2)
  with transfer_counts [OF other_error(1)] assms(4) show ?thesis
    by auto
qed

lemma download_eq:
  assumes "written (stats self) = read (stats self)"
    and "download net self w url = (res, self1, w1)"
    and "length (fail (stats self1)) = length (fail (stats self))"
    and "length (fatal (stats self1)) = length (fatal (stats self))"
  shows "written (stats self1) = read (stats self1)"
  using assms(2)
  by (cases rule: download_cases) (use assms attempt_eq [OF assms(1)] in auto)

lemma run_from_eq:
  "written (stats self) = read (stats self) \<Longrightarrow>
   run_from net self w urls = (res, self1, w1) \<Longrightarrow>
   length (fail (stats self1)) = length (fail (stats self)) \<Longrightarrow>
   length (fatal (stats self1)) = length (fatal (stats self)) \<Longrightarrow>
   written (stats self1) = read (stats self1)"
proof (induction urls arbitrary: self w)
  case Nil
  then show ?case by simp
next
  case (Cons url urls)
  obtain r self2 w2 where d: "download net self w url = (r, self2, w2)"
    by (cases "download net self w url")
  note step = download_recorded [OF d]
  show ?case
  proof (cases r)
    case (Some e)
    with d Cons.prems(2) have "self1 = self2"
      by simp
    with download_eq [OF Cons.prems(1) d] Cons.prems(3,4) show ?thesis
      by simp
  next
    case None
    with d Cons.prems(2) have rest: "run_from net self2 w2 urls = (res, self1, w1)"
      by simp
    from run_from_recorded [OF rest] step Cons.prems(3,4)
    have same: "length (fail (stats self2)) = length (fail (stats self))"
      "length (fatal (stats self2)) = length (fatal (stats self))"
      by linarith+
    from download_eq [OF Cons.prems(1) d same]
    have "written (stats self2) = read (stats self2)" .
    from Cons.IH [OF this rest] same Cons.prems(3,4) show ?thesis
      by simp
  qed
qed

subsection \<open>The example download, evaluated\<close>

lemma example_paths:
  "normpath ''/root'' = ''/root''"
  "normpath ''/root/ch/linux'' = ''/root/ch/linux''"
  "normpath ''/root/ch/linux/p.tar'' = ''/root/ch/linux/p.tar''"
  "normpath ''/root/ch/linux/gone.tar'' = ''/root/ch/linux/gone.tar''"
  "join ''/root'' ''/root/ch/linux'' = ''/root/ch/linux''"
  "join ''/root/ch/linux'' ''p.tar'' = ''/root/ch/linux/p.tar''"
  "join ''/root/ch/linux'' ''gone.tar'' = ''/root/ch/linux/gone.tar''"
  "ancestors ''/root/ch/linux'' = [''/root'', ''/root/ch'']"
  "parent ''/root/ch/linux/p.tar'' = ''/root/ch/linux''"
  "parent ''/root/ch/linux/gone.tar'' = ''/root/ch/linux''"
  by code_simp+

lemma example_resolved:
  assumes "destination self = ''/root''"
  shows "determine_local_path self ''http://h/ch/linux/p.tar'' = Inr (''/root/ch/linux'', ''p.tar'')"
    and "determine_local_path self ''http://h/ch/linux/gone.tar'' =
      Inr (''/root/ch/linux'', ''gone.tar'')"
    and "determine_local_path self ''http://down/ch/linux/p.tar'' =
      Inr (''/root/ch/linux'', ''p.tar'')"
proof -
  have dir: "normpath (join ''/root'' ''ch/linux'') = ''/root/ch/linux''"
    by code_simp
  have a: "''http://h/ch/linux/p.tar'' = ''http://h'' @ ''/'' @ ''ch'' @ ''/'' @ ''linux'' @ ''/'' @ ''p.tar''"
    by simp
  show "determine_local_path self ''http://h/ch/linux/p.tar'' = Inr (''/root/ch/linux'', ''p.tar'')"
    unfolding a by (subst determine_local_path_parts) (simp_all add: assms dir)
  have b: "''http://h/ch/linux/gone.tar'' =
      ''http://h'' @ ''/'' @ ''ch'' @ ''/'' @ ''linux'' @ ''/'' @ ''gone.tar''"
    by simp
  show "determine_local_path self ''http://h/ch/linux/gone.tar'' =
      Inr (''/root/ch/linux'', ''gone.tar'')"
    unfolding b by (subst determine_local_path_parts) (simp_all add: assms dir)
  have c: "''http://down/ch/linux/p.tar'' =
      ''http://down'' @ ''/'' @ ''ch'' @ ''/'' @ ''linux'' @ ''/'' @ ''p.tar''"
    by simp
  show "determine_local_path self ''http://down/ch/linux/p.tar'' =
      Inr (''/root/ch/linux'', ''p.tar'')"
    unfolding c by (subst determine_local_path_parts) (simp_all add: assms dir)
qed

lemmas evaluate =
  download_def Let_def example_paths path_exists_def dir_at_def file_at_def makedirs_def
  empty_world_def attempt_def transfer_def example_net_def open_wb_def stream_read_def
  copy_loop.simps loop_body_def write_chunk_def data_read_def insert_commute run_def

lemma example_first_download:
  "download example_net ((Backup_init ds ''/root'')\<lparr>verbose := Some False\<rparr>) empty_world
     ''http://h/ch/linux/p.tar'' =
   (None,
    (Backup_init ds ''/root'')\<lparr>verbose := Some False,
       stats := \<lparr>read = 3, written = 3, success = 1, skipped = 0, fatal = [], fail = []\<rparr>\<rparr>,
    empty_world\<lparr>dirs := {''/root'', ''/root/ch'', ''/root/ch/linux''},
       files := [''/root/ch/linux/p.tar'' \<mapsto> [1, 2, 3]], free := 999997,
       requested := [65535, 65535]\<rparr>)"
proof -
  have "destination ((Backup_init ds ''/root'')\<lparr>verbose := Some False\<rparr>) = ''/root''"
    by (simp add: example_paths)
  from example_resolved(1) [OF this] show ?thesis
    by (simp add: evaluate)
qed

text \<open>
  Claim C10.  At the head of the transfer loop the bytes written and the chunk in hand
  together do not exceed the bytes read; one pass of the body keeps that, and a pass
  that raises leaves \<open>written \<le> read\<close>.  Hence \<open>written \<le> read\<close> is kept by every
  download and holds at the end of every run that starts with it, in particular of a
  run of a fresh object.  When a run that starts with equal counts returns and has
  recorded no failure (\<open>fail\<close> and \<open>fatal\<close> are as before), the counts are equal again.
\<close>

theorem written_le_read:
  "(written (stats self) + length chunk \<le> read (stats self) \<longrightarrow>
      (loop_body bs self w dat chunk fullpath = Next self_n w_n dat_n chunk_n \<longrightarrow>
         written (stats self_n) + length chunk_n \<le> read (stats self_n))
      \<and> (loop_body bs self w dat chunk fullpath = Raised e self_x w_x \<longrightarrow>
         written (stats self_x) \<le> read (stats self_x)))
   \<and> (written (stats self) \<le> read (stats self) \<longrightarrow>
      download net self w url = (res, self_d, w_d) \<longrightarrow>
        written (stats self_d) \<le> read (stats self_d))
   \<and> (written (stats self) \<le> read (stats self) \<longrightarrow>
      run net self w = (res_r, self_r, w_r) \<longrightarrow>
        written (stats self_r) \<le> read (stats self_r))
   \<and> (run net ((Backup_init ds dest)\<lparr>verbose := v\<rparr>) w = (res_f, self_f, w_f) \<longrightarrow>
        written (stats self_f) \<le> read (stats self_f))
   \<and> (written (stats self) = read (stats self) \<longrightarrow>
      run net self w = (res_r, self_r, w_r) \<longrightarrow>
      fail (stats self_r) = fail (stats self) \<longrightarrow>
      fatal (stats self_r) = fatal (stats self) \<longrightarrow>
        written (stats self_r) = read (stats self_r))"
proof (intro conjI impI)
  assume "written (stats self) + length chunk \<le> read (stats self)"
  note head = loop_body_le [OF this]
  {
    assume "loop_body bs self w dat chunk fullpath = Next self_n w_n dat_n chunk_n"
    then show "written (stats self_n) + length chunk_n \<le> read (stats self_n)"
      by (rule head(1))
  next
    assume "loop_body bs self w dat chunk fullpath = Raised e self_x w_x"
    then show "written (stats self_x) \<le> read (stats self_x)"
      by (rule head(2))
  }
next
  assume "written (stats self) \<le> read (stats self)" "download net self w url = (res, self_d, w_d)"
  then show "written (stats self_d) \<le> read (stats self_d)"
    by (rule download_le)
next
  assume "written (stats self) \<le> read (stats self)" "run net self w = (res_r, self_r, w_r)"
  then show "written (stats self_r) \<le> read (stats self_r)"
    unfolding run_def by (rule run_from_le)
next
  assume fresh: "run net ((Backup_init ds dest)\<lparr>verbose := v\<rparr>) w = (res_f, self_f, w_f)"
  have "written (stats ((Backup_init ds dest)\<lparr>verbose := v\<rparr>)) \<le>
      read (stats ((Backup_init ds dest)\<lparr>verbose := v\<rparr>))"
    by simp
  from run_from_le [OF this fresh [unfolded run_def]]
  show "written (stats self_f) \<le> read (stats self_f)" .
next
  assume eq: "written (stats self) = read (stats self)"
    and r: "run net self w = (res_r, self_r, w_r)"
    and f: "fail (stats self_r) = fail (stats self)"
    and g: "fatal (stats self_r) = fatal (stats self)"
  from f have f': "length (fail (stats self_r)) = length (fail (stats self))"
    by simp
  from g have g': "length (fatal (stats self_r)) = length (fatal (stats self))"
    by simp
  from run_from_eq [OF eq r [unfolded run_def] f' g']
  show "written (stats self_r) = read (stats self_r)" .
qed

theorem written_le_read_witness:
  "run example_net
     ((Backup_init [''http://h/ch/linux/p.tar''] ''/root'')\<lparr>verbose := Some False\<rparr>) empty_world =
   (None,
    (Backup_init [''http://h/ch/linux/p.tar''] ''/root'')\<lparr>verbose := Some False,
       stats := \<lparr>read = 3, written = 3, success = 1, skipped = 0, fatal = [], fail = []\<rparr>\<rparr>,
    empty_world\<lparr>dirs := {''/root'', ''/root/ch'', ''/root/ch/linux''},
       files := [''/root/ch/linux/p.tar'' \<mapsto> [1, 2, 3]], free := 999997,
       requested := [65535, 65535]\<rparr>)
   \<and> written
       (stats ((Backup_init [''http://h/ch/linux/p.tar''] ''/root'')\<lparr>verbose := Some False,
          stats := \<lparr>read = 3, written = 3, success = 1, skipped = 0, fatal = [], fail = []\<rparr>\<rparr>)) =
     read
       (stats ((Backup_init [''http://h/ch/linux/p.tar''] ''/root'')\<lparr>verbose := Some False,
          stats := \<lparr>read = 3, written = 3, success = 1, skipped = 0, fatal = [], fail = []\<rparr>\<rparr>))"
proof -
  let ?self = "(Backup_init [''http://h/ch/linux/p.tar''] ''/root'')\<lparr>verbose := Some False\<rparr>"
  let ?self1 = "(Backup_init [''http://h/ch/linux/p.tar''] ''/root'')\<lparr>verbose := Some False,
       stats := \<lparr>read = 3, written = 3, success = 1, skipped = 0, fatal = [], fail = []\<rparr>\<rparr>"
  let ?w1 = "empty_world\<lparr>dirs := {''/root'', ''/root/ch'', ''/root/ch/linux''},
       files := [''/root/ch/linux/p.tar'' \<mapsto> [1, 2, 3]], free := 999997,
       requested := [65535, 65535]\<rparr>"
  have r: "run example_net ?self empty_world = (None, ?self1, ?w1)"
    by (simp add: run_def example_first_download)
  have "written (stats ?self) = read (stats ?self)"
    "fail (stats ?self1) = fail (stats ?self)" "fatal (stats ?self1) = fatal (stats ?self)"
    by simp_all
  with r written_le_read [where self = ?self and net = example_net and w = empty_world
      and res_r = None and self_r = ?self1 and w_r = ?w1,
      THEN conjunct2, THEN conjunct2, THEN conjunct2, THEN conjunct2]
  have "written (stats ?self1) = read (stats ?self1)"
    by blast
  with r show ?thesis
    by blast
qed

subsection \<open>Failures of one download\<close>

lemma example_directories:
  "makedirs empty_world ''/root/ch/linux'' =
     Inr (empty_world\<lparr>dirs := {''/root'', ''/root/ch'', ''/root/ch/linux''}\<rparr>)"
  by (simp add: evaluate)

text \<open>
  Claim C1, where the code departs from it.  The connection for the locator is refused:
  \<open>urlopen\<close> raises \<open>URLError\<close>, which is not an \<open>HTTPError\<close>.  The pair is appended
  to \<open>fatal\<close> and the download returns, so the run goes on; but \<open>success\<close> is
  incremented as well, since the handler of \<open>Exception\<close> does not return.
\<close>

theorem refused_connection_counts_as_success:
  "download example_net ((Backup_init ds ''/root'')\<lparr>verbose := Some False\<rparr>) empty_world
     ''http://down/ch/linux/p.tar'' =
   (None,
    (Backup_init ds ''/root'')\<lparr>verbose := Some False,
       stats := \<lparr>read = 0, written = 0, success = 1, skipped = 0,
         fatal = [(''http://down/ch/linux/p.tar'', URLError ''Connection refused'')],
         fail = []\<rparr>\<rparr>,
    empty_world\<lparr>dirs := {''/root'', ''/root/ch'', ''/root/ch/linux''}\<rparr>)"
proof -
  have "destination ((Backup_init ds ''/root'')\<lparr>verbose := Some False\<rparr>) = ''/root''"
    by (simp add: example_paths)
  from example_resolved(3) [OF this] show ?thesis
    by (simp add: evaluate)
qed


lemma other_error_counts_as_success:
  assumes "transfer net bs self w url fullpath = (Some reason, self_t, w_t)"
    and "\<not> is_HTTPError reason"
  shows "attempt net bs self w url fullpath =
     (None,
      self_t\<lparr>stats := (stats self_t)\<lparr>fatal := fatal (stats self_t) @ [(url, reason)],
        success := success (stats self_t) + 1\<rparr>\<rparr>,
      w_t)"
  using assms by (simp add: attempt_def Let_def)

subsection \<open>A run without \<open>verbose\<close>\<close>

lemma transfer_unset_verbose:
  assumes "verbose self = None" "net url = Inr dat" "open_wb w fullpath = Inr w_o"
  shows "transfer net bs self w url fullpath = (Some (AttributeError ''verbose''), self, w_o)"
  using assms by (simp add: transfer_def)

lemma open_wb_empties:
  "open_wb w fullpath = Inr w_o \<Longrightarrow> files w_o (normpath fullpath) = Some []"
  by (auto simp: open_wb_def Let_def split: if_splits)

text \<open>
  Claim C9, as amended.  On an object whose \<open>verbose\<close> was never assigned, a locator
  that is not skipped, and for which the directory is there or can be made and both
  the remote resource and the local file open, is recorded in \<open>fatal\<close> with the
  \<open>AttributeError\<close>; nothing is read or written, \<open>fail\<close> stays, and the local file is
  left empty.  (A locator whose \<open>urlopen\<close> raises is recorded with that exception.)
\<close>

theorem unset_verbose_is_fatal:
  "verbose self = None \<longrightarrow>
   determine_local_path self url = Inr (path, name) \<longrightarrow>
   \<not> (path_exists w (join (destination self) path)
      \<and> path_exists w (join (join (destination self) path) name)) \<longrightarrow>
   (if path_exists w (join (destination self) path) then w_d = w
    else makedirs w (join (destination self) path) = Inr w_d) \<longrightarrow>
   net url = Inr dat \<longrightarrow>
   open_wb w_d (join (join (destination self) path) name) = Inr w_o \<longrightarrow>
   (\<exists>self_r. download net self w url = (None, self_r, w_o)
      \<and> fatal (stats self_r) = fatal (stats self) @ [(url, AttributeError ''verbose'')]
      \<and> fail (stats self_r) = fail (stats self)
      \<and> read (stats self_r) = read (stats self)
      \<and> written (stats self_r) = written (stats self)
      \<and> files w_o (normpath (join (join (destination self) path) name)) = Some [])"
proof (intro impI)
  let ?dirpath = "join (destination self) path"
  let ?fullpath = "join (join (destination self) path) name"
  assume unset: "verbose self = None"
    and resolved: "determine_local_path self url = Inr (path, name)"
    and fresh: "\<not> (path_exists w ?dirpath \<and> path_exists w ?fullpath)"
    and dir: "if path_exists w ?dirpath then w_d = w else makedirs w ?dirpath = Inr w_d"
    and remote: "net url = Inr dat"
    and local: "open_wb w_d ?fullpath = Inr w_o"
  let ?self_r = "self\<lparr>stats := (stats self)\<lparr>fatal := fatal (stats self) @ [(url, AttributeError ''verbose'')],
      success := success (stats self) + 1\<rparr>\<rparr>"
  have tried: "attempt net (block_size self) self w_d url ?fullpath = (None, ?self_r, w_o)"
    by (simp add: attempt_def Let_def transfer_def unset remote local)
  have "download net self w url = (None, ?self_r, w_o)"
  proof (cases "path_exists w ?dirpath")
    case True
    with fresh dir resolved tried show ?thesis
      by (simp add: download_def Let_def)
  next
    case False
    with dir resolved tried show ?thesis
      by (simp add: download_def Let_def)
  qed
  with open_wb_empties [OF local]
  show "\<exists>self_r. download net self w url = (None, self_r, w_o)
      \<and> fatal (stats self_r) = fatal (stats self) @ [(url, AttributeError ''verbose'')]
      \<and> fail (stats self_r) = fail (stats self)
      \<and> read (stats self_r) = read (stats self)
      \<and> written (stats self_r) = written (stats self)
      \<and> files w_o (normpath ?fullpath) = Some []"
    by (intro exI [of _ ?self_r]) simp
qed

theorem unset_verbose_is_fatal_witness:
  "\<exists>self_r.
     download example_net (Backup_init [''http://h/ch/linux/p.tar''] ''/root'') empty_world
       ''http://h/ch/linux/p.tar'' =
     (None, self_r,
      empty_world\<lparr>dirs := {''/root'', ''/root/ch'', ''/root/ch/linux''},
        files := [''/root/ch/linux/p.tar'' \<mapsto> []]\<rparr>)
     \<and> fatal (stats self_r) = [(''http://h/ch/linux/p.tar'', AttributeError ''verbose'')]
     \<and> fail (stats self_r) = []
     \<and> read (stats self_r) = 0
     \<and> written (stats self_r) = 0"
proof -
  let ?self = "Backup_init [''http://h/ch/linux/p.tar''] ''/root''"
  let ?w_d = "empty_world\<lparr>dirs := {''/root'', ''/root/ch'', ''/root/ch/linux''}\<rparr>"
  let ?w_o = "empty_world\<lparr>dirs := {''/root'', ''/root/ch'', ''/root/ch/linux''},
        files := [''/root/ch/linux/p.tar'' \<mapsto> []]\<rparr>"
  have d: "destination ?self = ''/root''"
    by (simp add: example_paths)
  have a: "verbose ?self = None"
    by simp
  note b = example_resolved(1) [OF d]
  have c: "\<not> (path_exists empty_world (join (destination ?self) ''/root/ch/linux'')
      \<and> path_exists empty_world (join (join (destination ?self) ''/root/ch/linux'') ''p.tar''))"
    by (simp add: d evaluate)
  have e: "if path_exists empty_world (join (destination ?self) ''/root/ch/linux'') then ?w_d = empty_world
    else makedirs empty_world (join (destination ?self) ''/root/ch/linux'') = Inr ?w_d"
    by (simp add: d evaluate)
  have f: "example_net ''http://h/ch/linux/p.tar'' = Inr (Stream [1, 2, 3] None)"
    by (simp add: example_net_def)
  have g: "open_wb ?w_d (join (join (destination ?self) ''/root/ch/linux'') ''p.tar'') = Inr ?w_o"
    by (simp add: d evaluate)
  from unset_verbose_is_fatal [where self = ?self and w = empty_world and w_d = ?w_d
      and net = example_net and w_o = ?w_o and url = "''http://h/ch/linux/p.tar''"
      and path = "''/root/ch/linux''" and name = "''p.tar''" and dat = "Stream [1, 2, 3] None"]
    a b c e f g
  show ?thesis
    by (simp add: evaluate)
qed

text \<open>
  The claim as stated fails for a locator that is not skipped and whose \<open>urlopen\<close>
  raises: the \<open>HTTPError\<close> goes to \<open>fail\<close>, and \<open>fatal\<close> gets no \<open>AttributeError\<close>.
\<close>

theorem unset_verbose_counterexample:
  "verbose (Backup_init [''http://h/ch/linux/gone.tar''] ''/root'') = None
   \<and> download example_net (Backup_init [''http://h/ch/linux/gone.tar''] ''/root'') empty_world
       ''http://h/ch/linux/gone.tar'' =
     (None,
      (Backup_init [''http://h/ch/linux/gone.tar''] ''/root'')
        \<lparr>stats := \<lparr>read = 0, written = 0, success = 0, skipped = 0, fatal = [],
           fail = [(''http://h/ch/linux/gone.tar'', HTTPError 404)]\<rparr>\<rparr>,
      empty_world\<lparr>dirs := {''/root'', ''/root/ch'', ''/root/ch/linux''}\<rparr>)"
proof -
  have "destination (Backup_init [''http://h/ch/linux/gone.tar''] ''/root'') = ''/root''"
    by (simp add: example_paths)
  from example_resolved(2) [OF this] show ?thesis
    by (simp add: evaluate)
qed

subsection \<open>Where the file is written\<close>

lemma example_relative_paths:
  "normpath ''backup'' = ''backup''"
  "normpath (join ''backup'' ''ch/linux'') = ''backup/ch/linux''"
  "join ''backup'' ''backup/ch/linux'' = ''backup/backup/ch/linux''"
  "join ''backup/backup/ch/linux'' ''p.tar'' = ''backup/backup/ch/linux/p.tar''"
  "normpath ''backup/backup/ch/linux'' = ''backup/backup/ch/linux''"
  "normpath ''backup/backup/ch/linux/p.tar'' = ''backup/backup/ch/linux/p.tar''"
  "ancestors ''backup/backup/ch/linux'' = [''backup'', ''backup/backup'', ''backup/backup/ch'']"
  "parent ''backup/backup/ch/linux/p.tar'' = ''backup/backup/ch/linux''"
  by code_simp+

lemma join_relative:
  assumes "dest \<noteq> []" "\<not> endswith dest ''/''" "\<not> startswith path ''/''"
  shows "join dest path = dest @ ''/'' @ path"
  using assms by (simp add: join_def)

text \<open>
  For every relative plain destination the directory that is resolved begins with the
  destination, and the directory that is used has the destination before it once more.
  For an absolute destination the second join changes nothing.
\<close>

lemma relative_destination_doubled:
  assumes "comps \<noteq> []" "\<forall>c \<in> set comps. ordinary c" "ordinary first" "ordinary second"
    "CHR ''/'' \<notin> set file"
  shows "determine_local_path (Backup_init ds (sep_join comps))
      (before @ ''/'' @ first @ ''/'' @ second @ ''/'' @ file) =
        Inr (sep_join comps @ ''/'' @ first @ ''/'' @ second, file)"
    and "join (destination (Backup_init ds (sep_join comps)))
        (sep_join comps @ ''/'' @ first @ ''/'' @ second) =
      sep_join comps @ ''/'' @ sep_join comps @ ''/'' @ first @ ''/'' @ second"
proof -
  let ?dest = "sep_join comps"
  note nice = sep_join_ordinary [OF assms(1,2)]
  have rel: "\<not> startswith ?dest ''/''" "\<not> endswith ?dest ''/''"
    using nice by (cases ?dest; simp add: startswith_def endswith_slash)+
  have sub: "\<not> startswith (first @ ''/'' @ second) ''/''"
    using ordinary_ends [OF assms(3)] by (cases first) (simp_all add: startswith_def)
  have joined: "join ?dest (first @ ''/'' @ second) = ?dest @ ''/'' @ first @ ''/'' @ second"
    using nice(1) rel(2) sub by (simp add: join_def)
  have slashfree: "CHR ''/'' \<notin> set first" "CHR ''/'' \<notin> set second"
    using assms(3,4) by (simp_all add: ordinary_def)
  have plain: "?dest = [] @ ?dest" "[] = [] \<or> [] = ''/''"
    by simp_all
  note normal = directory_plain [OF plain(1) nice(1) plain(2) assms(2,3,4)]
  have dest: "destination (Backup_init ds ?dest) = ?dest"
    by (simp add: Backup_init_def normal(1))
  show "determine_local_path (Backup_init ds ?dest)
      (before @ ''/'' @ first @ ''/'' @ second @ ''/'' @ file) =
        Inr (?dest @ ''/'' @ first @ ''/'' @ second, file)"
    by (simp only: determine_local_path_parts [OF slashfree assms(5)] dest joined
        normal(2) [unfolded joined])
  have "\<not> startswith (?dest @ ''/'' @ first @ ''/'' @ second) ''/''"
    using rel(1) nice(1) by (cases ?dest) (simp_all add: startswith_def)
  with nice(1) rel(2)
  show "join (destination (Backup_init ds ?dest)) (?dest @ ''/'' @ first @ ''/'' @ second) =
      ?dest @ ''/'' @ ?dest @ ''/'' @ first @ ''/'' @ second"
    unfolding dest by (simp add: join_def)
qed

lemma absolute_path_joined_once: "startswith path ''/'' \<Longrightarrow> join dest path = path"
  by (simp add: join_def)

text \<open>
  Claim C4, where the code departs from it.  The destination is the relative path
  \<open>backup\<close>.  \<open>_determine_local_path\<close> returns the directory \<open>backup/ch/linux\<close>, which
  has the destination in it, and \<open>_download\<close> joins the destination with it once more:
  the file is written at \<open>backup/backup/ch/linux/p.tar\<close>, and nothing is written at
  \<open>backup/ch/linux/p.tar\<close>.
\<close>

theorem relative_destination_is_joined_twice:
  "determine_local_path ((Backup_init ds ''backup'')\<lparr>verbose := Some False\<rparr>)
     ''http://h/ch/linux/p.tar'' = Inr (''backup/ch/linux'', ''p.tar'')
   \<and> download example_net ((Backup_init ds ''backup'')\<lparr>verbose := Some False\<rparr>) empty_world
       ''http://h/ch/linux/p.tar'' =
     (None,
      (Backup_init ds ''backup'')\<lparr>verbose := Some False,
         stats := \<lparr>read = 3, written = 3, success = 1, skipped = 0, fatal = [], fail = []\<rparr>\<rparr>,
      empty_world\<lparr>dirs := {''backup'', ''backup/backup'', ''backup/backup/ch'',
           ''backup/backup/ch/linux''},
         files := [''backup/backup/ch/linux/p.tar'' \<mapsto> [1, 2, 3]], free := 999997,
         requested := [65535, 65535]\<rparr>)"
proof -
  let ?self = "(Backup_init ds ''backup'')\<lparr>verbose := Some False\<rparr>"
  have d: "destination ?self = ''backup''"
    by (simp add: example_relative_paths)
  have shape: "''http://h/ch/linux/p.tar'' =
      ''http://h'' @ ''/'' @ ''ch'' @ ''/'' @ ''linux'' @ ''/'' @ ''p.tar''"
    by simp
  have resolved: "determine_local_path ?self ''http://h/ch/linux/p.tar'' =
      Inr (''backup/ch/linux'', ''p.tar'')"
    unfolding shape
    by (subst determine_local_path_parts) (simp_all add: d example_relative_paths)
  have "download example_net ?self empty_world ''http://h/ch/linux/p.tar'' =
     (None,
      (Backup_init ds ''backup'')\<lparr>verbose := Some False,
         stats := \<lparr>read = 3, written = 3, success = 1, skipped = 0, fatal = [], fail = []\<rparr>\<rparr>,
      empty_world\<lparr>dirs := {''backup'', ''backup/backup'', ''backup/backup/ch'',
           ''backup/backup/ch/linux''},
         files := [''backup/backup/ch/linux/p.tar'' \<mapsto> [1, 2, 3]], free := 999997,
         requested := [65535, 65535]\<rparr>)"
    using resolved
    by (simp add: download_def Let_def example_relative_paths path_exists_def dir_at_def
        file_at_def makedirs_def empty_world_def attempt_def transfer_def example_net_def
        open_wb_def stream_read_def data_read_def copy_loop.simps loop_body_def write_chunk_def
        insert_commute)
  with resolved show ?thesis
    by blast
qed

subsection \<open>A locator with an empty segment\<close>

text \<open>
  When the third slash from the end is followed by another slash, as in a locator with
  the file directly under the host, the part of the locator taken for the directory
  begins with a slash: it is an absolute path, and the join drops the destination.
\<close>

lemma empty_segment_paths:
  "normpath (join ''/root'' ''/host'') = ''/host''"
  "join ''/root'' ''/host'' = ''/host''"
  "join ''/host'' ''file.tar'' = ''/host/file.tar''"
  "normpath ''/host'' = ''/host''"
  "normpath ''/host/file.tar'' = ''/host/file.tar''"
  "ancestors ''/host'' = []"
  "parent ''/host/file.tar'' = ''/host''"
  "slice ''http://host/file.tar'' 6 11 = ''/host''"
  by code_simp+

lemma empty_segment_resolved:
  assumes "CHR ''/'' \<notin> set seg2" "CHR ''/'' \<notin> set name"
  shows "determine_local_path self (front @ ''//'' @ seg2 @ ''/'' @ name) =
     Inr (normpath (join (destination self) (''/'' @ seg2)), name)"
  using determine_local_path_parts [of "[]" seg2 name self front] assms
  by simp

text \<open>
  Claim C5, where the code departs from it.  The locator \<open>http://host/file.tar\<close> has
  three slashes, at 5, 6 and 11; the part from one past the third slash from the end
  up to the last slash is \<open>/host\<close>, although the code means it to start after the
  leading slash.  Resolved against the root \<open>/root\<close>, the directory is \<open>/host\<close>, not
  \<open>/root/host\<close>: it is not the destination root joined with that part, and it lies
  outside the destination root.  The download of the locator into an empty tree makes
  the directory \<open>/host\<close> and nothing under \<open>/root\<close>.
\<close>

theorem empty_segment_leaves_destination:
  "markers_from ''http://host/file.tar'' 0 [] = [5, 6, 11]
   \<and> slice ''http://host/file.tar'' 6 11 = ''/host''
   \<and> determine_local_path (Backup_init ds ''/root'') ''http://host/file.tar'' =
       Inr (''/host'', ''file.tar'')
   \<and> dirs (snd (snd (download example_net
         ((Backup_init ds ''/root'')\<lparr>verbose := Some False\<rparr>) empty_world
         ''http://host/file.tar''))) = {''/host''}"
proof -
  let ?self = "(Backup_init ds ''/root'')\<lparr>verbose := Some False\<rparr>"
  have shape: "''http://host/file.tar'' = ''http:'' @ ''//'' @ ''host'' @ ''/'' @ ''file.tar''"
    by simp
  have resolved: "determine_local_path self ''http://host/file.tar'' =
      Inr (''/host'', ''file.tar'')" if "destination self = ''/root''" for self
    unfolding shape
    by (subst empty_segment_resolved) (simp_all add: that empty_segment_paths)
  have m: "markers_from ''http://host/file.tar'' 0 [] = [5, 6, 11]"
    by code_simp
  have plain: "determine_local_path (Backup_init ds ''/root'') ''http://host/file.tar'' =
      Inr (''/host'', ''file.tar'')"
    by (rule resolved) (simp add: example_paths)
  have "determine_local_path ?self ''http://host/file.tar'' = Inr (''/host'', ''file.tar'')"
    by (rule resolved) (simp add: example_paths)
  then have "dirs (snd (snd (download example_net ?self empty_world ''http://host/file.tar''))) =
      {''/host''}"
    by (simp add: download_def Let_def example_paths empty_segment_paths path_exists_def
        dir_at_def file_at_def makedirs_def empty_world_def attempt_def transfer_def
        example_net_def)
  with m plain empty_segment_paths(8) show ?thesis
    by blast
qed

subsection \<open>The transfer in blocks\<close>




















subsection \<open>A second run\<close>




lemma path_exists_requested [simp]:
  "path_exists (w\<lparr>requested := sizes\<rparr>) q = path_exists w q"
  by (simp add: path_exists_def dir_at_def file_at_def)



lemma path_exists_stdout [simp]: "path_exists (w\<lparr>stdout := out\<rparr>) q = path_exists w q"
  by (simp add: path_exists_def dir_at_def file_at_def)


















end
